theory Spec2Isabelle
  imports Main "HOL-Library.List_Lexorder"
begin

section \<open>Python values\<close>

text \<open>
  A Python \<^verbatim>\<open>str\<close> is a sequence of code points; a code point is a natural number
  below \<open>0x110000\<close>. Text files are read and written in text mode, so the content of
  \<^verbatim>\<open>tasks.json\<close> is a \<open>pystr\<close> as well.
\<close>

type_synonym pystr = "nat list"

definition lit :: "string \<Rightarrow> pystr" where
  "lit s = map of_char s"

text \<open>
  What \<^verbatim>\<open>json.load\<close> can return, floats apart: \<^verbatim>\<open>None\<close>, booleans, integers,
  strings, lists, and dictionaries with string keys. A dictionary keeps its keys in
  insertion order and holds each key once: an association list.
\<close>

datatype pyval =
    PNone
  | PBool bool
  | PInt int
  | PStr pystr
  | PList "pyval list"
  | PDict "(pystr \<times> pyval) list"

text \<open>
  Exceptions. \<open>Exit c\<close> is \<^verbatim>\<open>typer.Exit(code=c)\<close>. \<open>Unmodelled\<close> is not an
  exception of Python: it marks the inputs on which this development says nothing
  (a floating-point literal in the file, a document nested deeper than the decoder's
  fuel, ids that are lists, the string form of a list or dictionary, the case mapping
  of a non-ASCII status).
\<close>

datatype exc =
    JSONDecodeError
  | TypeError
  | KeyError
  | AttributeError
  | ValueError
  | Exit int
  | Unmodelled

section \<open>The json module: encoder\<close>

text \<open>
  \<^verbatim>\<open>json.dump(tasks, f, indent=4)\<close> with the default \<^verbatim>\<open>ensure_ascii=True\<close>:
  integers in decimal, strings between double quotes with every character outside
  \<^verbatim>\<open>' '..'~'\<close>, the backslash and the double quote escaped, containers one item per
  line, indented by four spaces per nesting level, items separated by a comma, keys
  from values by a colon and a space.
\<close>

fun dec_digits :: "nat \<Rightarrow> pystr" where
  "dec_digits n = (if n < 10 then [48 + n] else dec_digits (n div 10) @ [48 + n mod 10])"

declare dec_digits.simps [simp del]

definition int_repr :: "int \<Rightarrow> pystr" where
  "int_repr i = (if i < 0 then 45 # dec_digits (nat (- i)) else dec_digits (nat i))"

definition hex_digit :: "nat \<Rightarrow> nat" where
  "hex_digit d = (if d < 10 then 48 + d else 87 + d)"

fun hex_digits :: "nat \<Rightarrow> pystr" where
  "hex_digits n = (if n < 16 then [hex_digit n] else hex_digits (n div 16) @ [hex_digit (n mod 16)])"

declare hex_digits.simps [simp del]

text \<open>\<^verbatim>\<open>'{0:04x}'.format(n)\<close>: lower-case hexadecimal, padded with zeros to four digits.\<close>

definition fmt_04x :: "nat \<Rightarrow> pystr" where
  "fmt_04x n = replicate (4 - length (hex_digits n)) 48 @ hex_digits n"

text \<open>
  The replacement of one character by \<^verbatim>\<open>encode_basestring_ascii\<close>. A code point
  from \<open>0x10000\<close> on is written as a UTF-16 surrogate pair; the shifts and masks of the
  library are written with \<open>div\<close> and \<open>mod\<close>.
\<close>

definition escape_char :: "nat \<Rightarrow> pystr" where
  "escape_char c =
    (if c = 92 then [92, 92]
     else if c = 34 then [92, 34]
     else if c = 8 then [92, 98]
     else if c = 12 then [92, 102]
     else if c = 10 then [92, 110]
     else if c = 13 then [92, 114]
     else if c = 9 then [92, 116]
     else if 32 \<le> c \<and> c \<le> 126 then [c]
     else if c < 65536 then 92 # 117 # fmt_04x c
     else (let n = c - 65536;
               s1 = 55296 + (n div 1024) mod 1024;
               s2 = 56320 + n mod 1024
           in 92 # 117 # fmt_04x s1 @ 92 # 117 # fmt_04x s2))"

definition encode_basestring_ascii :: "pystr \<Rightarrow> pystr" where
  "encode_basestring_ascii s = 34 # concat (map escape_char s) @ [34]"

definition newline_indent :: "nat \<Rightarrow> pystr" where
  "newline_indent level = 10 # replicate (4 * level) 32"

fun join_items :: "pystr \<Rightarrow> pystr list \<Rightarrow> pystr" where
  "join_items sep [] = []"
| "join_items sep [x] = x"
| "join_items sep (x # y # ys) = x @ sep @ join_items sep (y # ys)"

fun iterencode :: "nat \<Rightarrow> pyval \<Rightarrow> pystr" where
  "iterencode level PNone = lit ''null''"
| "iterencode level (PBool b) = (if b then lit ''true'' else lit ''false'')"
| "iterencode level (PInt i) = int_repr i"
| "iterencode level (PStr s) = encode_basestring_ascii s"
| "iterencode level (PList xs) =
    (if xs = [] then lit ''[]''
     else 91 # newline_indent (Suc level)
          @ join_items (44 # newline_indent (Suc level)) (map (iterencode (Suc level)) xs)
          @ newline_indent level @ [93])"
| "iterencode level (PDict kvs) =
    (if kvs = [] then lit ''{}''
     else 123 # newline_indent (Suc level)
          @ join_items (44 # newline_indent (Suc level))
              (map (\<lambda>kv. encode_basestring_ascii (fst kv) @ lit '': ''
                           @ iterencode (Suc level) (snd kv)) kvs)
          @ newline_indent level @ [125])"

definition json_dumps :: "pyval \<Rightarrow> pystr" where
  "json_dumps v = iterencode 0 v"

section \<open>The json module: decoder\<close>

text \<open>
  \<^verbatim>\<open>json.load\<close> with its defaults, on the text of the file. Every syntax error is a
  \<open>JSONDecodeError\<close>; message and position are not kept. Whitespace is space, tab,
  line feed and carriage return.
\<close>

definition is_ws :: "nat \<Rightarrow> bool" where
  "is_ws c = (c = 32 \<or> c = 9 \<or> c = 10 \<or> c = 13)"

definition skip_ws :: "pystr \<Rightarrow> pystr" where
  "skip_ws s = dropWhile is_ws s"

definition hex_value :: "nat \<Rightarrow> nat option" where
  "hex_value c =
    (if 48 \<le> c \<and> c \<le> 57 then Some (c - 48)
     else if 97 \<le> c \<and> c \<le> 102 then Some (c - 87)
     else if 65 \<le> c \<and> c \<le> 70 then Some (c - 55)
     else None)"

text \<open>The four characters after \<^verbatim>\<open>\u\<close>, read as a hexadecimal number.\<close>

definition decode_uXXXX :: "pystr \<Rightarrow> nat option" where
  "decode_uXXXX s =
    (case s of
       a # b # c # d # _ \<Rightarrow>
         (case (hex_value a, hex_value b, hex_value c, hex_value d) of
            (Some x, Some y, Some z, Some w) \<Rightarrow> Some (((x * 16 + y) * 16 + z) * 16 + w)
          | _ \<Rightarrow> None)
     | _ \<Rightarrow> None)"

text \<open>The table \<^verbatim>\<open>BACKSLASH\<close>: the character a one-letter escape stands for.\<close>

definition backslash :: "nat \<Rightarrow> nat option" where
  "backslash e =
    (if e = 34 then Some 34
     else if e = 92 then Some 92
     else if e = 47 then Some 47
     else if e = 98 then Some 8
     else if e = 102 then Some 12
     else if e = 110 then Some 10
     else if e = 114 then Some 13
     else if e = 116 then Some 9
     else None)"

text \<open>
  \<^verbatim>\<open>scanstring\<close> in strict mode, from the character after the opening quote: the
  string read so far is the second argument; the result is the string and the text
  after the closing quote. A high surrogate escape followed by a low surrogate escape
  is one code point.
\<close>

fun scanstring :: "pystr \<Rightarrow> pystr \<Rightarrow> exc + (pystr \<times> pystr)" where
  "scanstring [] acc = Inl JSONDecodeError"
| "scanstring (c # cs) acc =
    (if c = 34 then Inr (acc, cs)
     else if c = 92 then
       (case cs of
          [] \<Rightarrow> Inl JSONDecodeError
        | e # es \<Rightarrow>
            if e = 117 then
              (case decode_uXXXX es of
                 None \<Rightarrow> Inl JSONDecodeError
               | Some uni \<Rightarrow>
                   if 55296 \<le> uni \<and> uni \<le> 56319 \<and> take 2 (drop 4 es) = [92, 117] then
                     (case decode_uXXXX (drop 6 es) of
                        None \<Rightarrow> Inl JSONDecodeError
                      | Some uni2 \<Rightarrow>
                          if 56320 \<le> uni2 \<and> uni2 \<le> 57343
                          then scanstring (drop 10 es)
                                 (acc @ [65536 + (uni - 55296) * 1024 + (uni2 - 56320)])
                          else scanstring (drop 4 es) (acc @ [uni]))
                   else scanstring (drop 4 es) (acc @ [uni]))
            else
              (case backslash e of
                 None \<Rightarrow> Inl JSONDecodeError
               | Some ch \<Rightarrow> scanstring es (acc @ [ch])))
     else if c < 32 then Inl JSONDecodeError
     else scanstring cs (acc @ [c]))"

declare scanstring.simps [simp del]

definition is_digit :: "nat \<Rightarrow> bool" where
  "is_digit c = (48 \<le> c \<and> c \<le> 57)"

definition digits_value :: "pystr \<Rightarrow> nat" where
  "digits_value ds = foldl (\<lambda>a d. 10 * a + (d - 48)) 0 ds"

text \<open>
  \<^verbatim>\<open>NUMBER_RE\<close>, \<^verbatim>\<open>(-?(?:0|[1-9][0-9]*))(\.[0-9]+)?([eE][-+]?[0-9]+)?\<close>, at the start
  of the text. A match with a fraction or an exponent is a float.
\<close>

definition has_frac :: "pystr \<Rightarrow> bool" where
  "has_frac r = (take 1 r = [46] \<and> (case drop 1 r of [] \<Rightarrow> False | d # _ \<Rightarrow> is_digit d))"

definition has_exp :: "pystr \<Rightarrow> bool" where
  "has_exp r =
    ((take 1 r = [101] \<or> take 1 r = [69]) \<and>
     (let r2 = drop 1 r;
          r3 = (if take 1 r2 = [45] \<or> take 1 r2 = [43] then drop 1 r2 else r2)
      in case r3 of [] \<Rightarrow> False | d # _ \<Rightarrow> is_digit d))"

datatype number_match = NoMatch | IntMatch int pystr | FloatMatch

definition match_number :: "pystr \<Rightarrow> number_match" where
  "match_number s =
    (let neg = (take 1 s = [45]);
         s1 = (if neg then drop 1 s else s)
     in case s1 of
          [] \<Rightarrow> NoMatch
        | d # ds \<Rightarrow>
            if \<not> is_digit d then NoMatch
            else
              let ip = (if d = 48 then [d] else d # takeWhile is_digit ds);
                  r = drop (length ip) s1
              in if has_frac r \<or> has_exp r then FloatMatch
                 else IntMatch (if neg then - int (digits_value ip) else int (digits_value ip)) r)"

text \<open>
  \<^verbatim>\<open>dict(pairs)\<close>: a key that comes again keeps its place and takes the later value.
  The same function is item assignment \<^verbatim>\<open>d[k] = v\<close>.
\<close>

fun dict_set :: "(pystr \<times> pyval) list \<Rightarrow> pystr \<Rightarrow> pyval \<Rightarrow> (pystr \<times> pyval) list" where
  "dict_set [] k v = [(k, v)]"
| "dict_set ((k', v') # kvs) k v =
    (if k' = k then (k', v) # kvs else (k', v') # dict_set kvs k v)"

definition dict_of_pairs :: "(pystr \<times> pyval) list \<Rightarrow> (pystr \<times> pyval) list" where
  "dict_of_pairs pairs = foldl (\<lambda>d kv. dict_set d (fst kv) (snd kv)) [] pairs"

text \<open>
  The scanner. \<open>scan_once\<close> reads one value at the start of the text and returns it
  with the rest of the text; \<open>parse_array\<close> starts at an item, \<open>parse_object\<close> after
  the opening quote of a key. The first argument is fuel: each call spends one unit,
  and a call without fuel is \<open>Unmodelled\<close>.
\<close>

fun scan_once :: "nat \<Rightarrow> pystr \<Rightarrow> exc + (pyval \<times> pystr)"
  and parse_array :: "nat \<Rightarrow> pystr \<Rightarrow> pyval list \<Rightarrow> exc + (pyval \<times> pystr)"
  and parse_object :: "nat \<Rightarrow> pystr \<Rightarrow> (pystr \<times> pyval) list \<Rightarrow> exc + (pyval \<times> pystr)"
where
  "scan_once 0 s = Inl Unmodelled"
| "scan_once (Suc n) s =
    (case s of
       [] \<Rightarrow> Inl JSONDecodeError
     | c # cs \<Rightarrow>
         if c = 34 then
           (case scanstring cs [] of
              Inl e \<Rightarrow> Inl e
            | Inr (str, rest) \<Rightarrow> Inr (PStr str, rest))
         else if c = 123 then
           (case skip_ws cs of
              [] \<Rightarrow> Inl JSONDecodeError
            | d # ds \<Rightarrow>
                if d = 125 then Inr (PDict [], ds)
                else if d = 34 then parse_object n ds []
                else Inl JSONDecodeError)
         else if c = 91 then
           (case skip_ws cs of
              [] \<Rightarrow> Inl JSONDecodeError
            | d # ds \<Rightarrow>
                if d = 93 then Inr (PList [], ds)
                else parse_array n (d # ds) [])
         else if take 4 s = lit ''null'' then Inr (PNone, drop 4 s)
         else if take 4 s = lit ''true'' then Inr (PBool True, drop 4 s)
         else if take 5 s = lit ''false'' then Inr (PBool False, drop 5 s)
         else
           (case match_number s of
              IntMatch i rest \<Rightarrow> Inr (PInt i, rest)
            | FloatMatch \<Rightarrow> Inl Unmodelled
            | NoMatch \<Rightarrow>
                if take 3 s = lit ''NaN'' \<or> take 8 s = lit ''Infinity''
                   \<or> take 9 s = lit ''-Infinity''
                then Inl Unmodelled
                else Inl JSONDecodeError))"
| "parse_array 0 s vals = Inl Unmodelled"
| "parse_array (Suc n) s vals =
    (case scan_once n s of
       Inl e \<Rightarrow> Inl e
     | Inr (v, r1) \<Rightarrow>
         (case skip_ws r1 of
            [] \<Rightarrow> Inl JSONDecodeError
          | c # r2 \<Rightarrow>
              if c = 93 then Inr (PList (vals @ [v]), r2)
              else if c = 44 then parse_array n (skip_ws r2) (vals @ [v])
              else Inl JSONDecodeError))"
| "parse_object 0 s pairs = Inl Unmodelled"
| "parse_object (Suc n) s pairs =
    (case scanstring s [] of
       Inl e \<Rightarrow> Inl e
     | Inr (key, r1) \<Rightarrow>
         (case skip_ws r1 of
            [] \<Rightarrow> Inl JSONDecodeError
          | c # r2 \<Rightarrow>
              if c \<noteq> 58 then Inl JSONDecodeError
              else
                (case scan_once n (skip_ws r2) of
                   Inl e \<Rightarrow> Inl e
                 | Inr (v, r3) \<Rightarrow>
                     (case skip_ws r3 of
                        [] \<Rightarrow> Inl JSONDecodeError
                      | d # r4 \<Rightarrow>
                          if d = 125 then Inr (PDict (dict_of_pairs (pairs @ [(key, v)])), r4)
                          else if d = 44 then
                            (case skip_ws r4 of
                               [] \<Rightarrow> Inl JSONDecodeError
                             | q # r5 \<Rightarrow>
                                 if q = 34 then parse_object n r5 (pairs @ [(key, v)])
                                 else Inl JSONDecodeError)
                          else Inl JSONDecodeError))))"

text \<open>
  \<^verbatim>\<open>json.loads\<close>: a text that starts with a byte order mark is refused; the value
  may have whitespace before and after it, and nothing else. The fuel is more than
  any text needs: a call to \<open>scan_once\<close> or a pass of a loop reads at least one
  character before the next.
\<close>

definition json_loads :: "pystr \<Rightarrow> exc + pyval" where
  "json_loads s =
    (if take 1 s = [65279] then Inl JSONDecodeError
     else
       (case scan_once (2 * length s + 1) (skip_ws s) of
          Inl e \<Rightarrow> Inl e
        | Inr (v, rest) \<Rightarrow> if skip_ws rest = [] then Inr v else Inl JSONDecodeError))"

section \<open>Operations of Python on loaded values\<close>

text \<open>
  The commands use what \<^verbatim>\<open>load_tasks\<close> returns without checking its type, so each
  operation is given on every value: it raises what Python raises.
\<close>

fun truthy :: "pyval \<Rightarrow> bool" where
  "truthy PNone = False"
| "truthy (PBool b) = b"
| "truthy (PInt i) = (i \<noteq> 0)"
| "truthy (PStr s) = (s \<noteq> [])"
| "truthy (PList xs) = (xs \<noteq> [])"
| "truthy (PDict kvs) = (kvs \<noteq> [])"

text \<open>\<^verbatim>\<open>for x in v\<close>: the items of a list, the keys of a dictionary, the characters of a string.\<close>

fun py_iter :: "pyval \<Rightarrow> exc + pyval list" where
  "py_iter (PList xs) = Inr xs"
| "py_iter (PDict kvs) = Inr (map (\<lambda>kv. PStr (fst kv)) kvs)"
| "py_iter (PStr s) = Inr (map (\<lambda>c. PStr [c]) s)"
| "py_iter PNone = Inl TypeError"
| "py_iter (PBool b) = Inl TypeError"
| "py_iter (PInt i) = Inl TypeError"

fun py_len :: "pyval \<Rightarrow> exc + nat" where
  "py_len (PList xs) = Inr (length xs)"
| "py_len (PDict kvs) = Inr (length kvs)"
| "py_len (PStr s) = Inr (length s)"
| "py_len PNone = Inl TypeError"
| "py_len (PBool b) = Inl TypeError"
| "py_len (PInt i) = Inl TypeError"

text \<open>\<^verbatim>\<open>v[k]\<close> for a string \<open>k\<close>: only a dictionary can be indexed by a string.\<close>

fun getitem :: "pyval \<Rightarrow> pystr \<Rightarrow> exc + pyval" where
  "getitem (PDict kvs) k = (case map_of kvs k of None \<Rightarrow> Inl KeyError | Some v \<Rightarrow> Inr v)"
| "getitem (PList xs) k = Inl TypeError"
| "getitem (PStr s) k = Inl TypeError"
| "getitem PNone k = Inl TypeError"
| "getitem (PBool b) k = Inl TypeError"
| "getitem (PInt i) k = Inl TypeError"

text \<open>\<^verbatim>\<open>tasks.append(x)\<close>: only a list has the method.\<close>

fun py_append :: "pyval \<Rightarrow> pyval \<Rightarrow> exc + pyval" where
  "py_append (PList xs) x = Inr (PList (xs @ [x]))"
| "py_append (PDict kvs) x = Inl AttributeError"
| "py_append (PStr s) x = Inl AttributeError"
| "py_append PNone x = Inl AttributeError"
| "py_append (PBool b) x = Inl AttributeError"
| "py_append (PInt i) x = Inl AttributeError"

text \<open>The integer a number stands for: \<^verbatim>\<open>True\<close> is 1 and \<^verbatim>\<open>False\<close> is 0.\<close>

fun as_int :: "pyval \<Rightarrow> int option" where
  "as_int (PInt i) = Some i"
| "as_int (PBool b) = Some (if b then 1 else 0)"
| "as_int PNone = None"
| "as_int (PStr s) = None"
| "as_int (PList xs) = None"
| "as_int (PDict kvs) = None"

text \<open>\<^verbatim>\<open>v == n\<close> for an integer \<open>n\<close>, and \<^verbatim>\<open>v == s\<close> for a string \<open>s\<close>.\<close>

definition eq_int :: "pyval \<Rightarrow> int \<Rightarrow> bool" where
  "eq_int v n = (as_int v = Some n)"

definition eq_str :: "pyval \<Rightarrow> pystr \<Rightarrow> bool" where
  "eq_str v s = (v = PStr s)"

text \<open>
  \<^verbatim>\<open>x > y\<close>: numbers by value, strings by code points; any other pair of two lists
  apart is a \<open>TypeError\<close>. \<^verbatim>\<open>x + 1\<close>: defined on numbers only.
\<close>

fun py_gt :: "pyval \<Rightarrow> pyval \<Rightarrow> exc + bool" where
  "py_gt (PStr s) (PStr t) = Inr (t < s)"
| "py_gt (PList xs) (PList ys) = Inl Unmodelled"
| "py_gt x y =
    (case (as_int x, as_int y) of
       (Some a, Some b) \<Rightarrow> Inr (b < a)
     | _ \<Rightarrow> Inl TypeError)"

definition py_add1 :: "pyval \<Rightarrow> exc + int" where
  "py_add1 x = (case as_int x of Some a \<Rightarrow> Inr (a + 1) | None \<Rightarrow> Inl TypeError)"

text \<open>
  \<^verbatim>\<open>max(task['id'] for task in tasks)\<close>: the generator yields one id at a time, and
  \<^verbatim>\<open>max\<close> compares it with the greatest so far before asking for the next.
\<close>

fun max_from :: "pyval \<Rightarrow> pyval list \<Rightarrow> exc + pyval" where
  "max_from m [] = Inr m"
| "max_from m (task # tasks) =
    (case getitem task (lit ''id'') of
       Inl e \<Rightarrow> Inl e
     | Inr x \<Rightarrow>
         (case py_gt x m of
            Inl e \<Rightarrow> Inl e
          | Inr b \<Rightarrow> max_from (if b then x else m) tasks))"

definition max_id :: "pyval list \<Rightarrow> exc + pyval" where
  "max_id tasks =
    (case tasks of
       [] \<Rightarrow> Inl ValueError
     | task # rest \<Rightarrow>
         (case getitem task (lit ''id'') of
            Inl e \<Rightarrow> Inl e
          | Inr m \<Rightarrow> max_from m rest))"

text \<open>
  \<^verbatim>\<open>sorted(tasks, key=lambda x: x['id'])\<close>: the keys of all items are computed first.
  The sort is stable. Fewer than two items are not compared. Numbers sort by value and
  strings by code points; keys of different kinds, and \<^verbatim>\<open>None\<close> and dictionaries,
  cannot be compared, so the sort raises \<open>TypeError\<close>.
\<close>

fun get_ids :: "pyval list \<Rightarrow> exc + pyval list" where
  "get_ids [] = Inr []"
| "get_ids (task # tasks) =
    (case getitem task (lit ''id'') of
       Inl e \<Rightarrow> Inl e
     | Inr x \<Rightarrow> (case get_ids tasks of Inl e \<Rightarrow> Inl e | Inr xs \<Rightarrow> Inr (x # xs)))"

fun as_str :: "pyval \<Rightarrow> pystr option" where
  "as_str (PStr s) = Some s"
| "as_str PNone = None"
| "as_str (PBool b) = None"
| "as_str (PInt i) = None"
| "as_str (PList xs) = None"
| "as_str (PDict kvs) = None"

fun is_list :: "pyval \<Rightarrow> bool" where
  "is_list (PList xs) = True"
| "is_list PNone = False"
| "is_list (PBool b) = False"
| "is_list (PInt i) = False"
| "is_list (PStr s) = False"
| "is_list (PDict kvs) = False"

definition sorted_by_id :: "pyval list \<Rightarrow> exc + pyval list" where
  "sorted_by_id tasks =
    (case get_ids tasks of
       Inl e \<Rightarrow> Inl e
     | Inr keys \<Rightarrow>
         if length tasks < 2 then Inr tasks
         else if list_all (\<lambda>k. as_int k \<noteq> None) keys
           then Inr (map snd (sort_key (\<lambda>p. the (as_int (fst p))) (zip keys tasks)))
         else if list_all (\<lambda>k. as_str k \<noteq> None) keys
           then Inr (map snd (sort_key (\<lambda>p. the (as_str (fst p))) (zip keys tasks)))
         else if list_all is_list keys then Inl Unmodelled
         else Inl TypeError)"

text \<open>\<^verbatim>\<open>str(v)\<close>.\<close>

fun py_str :: "pyval \<Rightarrow> exc + pystr" where
  "py_str (PInt i) = Inr (int_repr i)"
| "py_str (PBool b) = Inr (if b then lit ''True'' else lit ''False'')"
| "py_str (PStr s) = Inr s"
| "py_str PNone = Inr (lit ''None'')"
| "py_str (PList xs) = Inl Unmodelled"
| "py_str (PDict kvs) = Inl Unmodelled"

text \<open>
  \<^verbatim>\<open>v.capitalize()\<close>: only a string has the method. On ASCII text the first
  character is made upper case and the others lower case.
\<close>

definition upper :: "nat \<Rightarrow> nat" where
  "upper c = (if 97 \<le> c \<and> c \<le> 122 then c - 32 else c)"

definition lower :: "nat \<Rightarrow> nat" where
  "lower c = (if 65 \<le> c \<and> c \<le> 90 then c + 32 else c)"

fun capitalize :: "pyval \<Rightarrow> exc + pystr" where
  "capitalize (PStr s) =
    (if list_all (\<lambda>c. c < 128) s
     then Inr (case s of [] \<Rightarrow> [] | c # cs \<Rightarrow> upper c # map lower cs)
     else Inl Unmodelled)"
| "capitalize PNone = Inl AttributeError"
| "capitalize (PBool b) = Inl AttributeError"
| "capitalize (PInt i) = Inl AttributeError"
| "capitalize (PList xs) = Inl AttributeError"
| "capitalize (PDict kvs) = Inl AttributeError"

section \<open>The store\<close>

text \<open>
  What a command can read and change: the text of \<^verbatim>\<open>tasks.json\<close> (\<open>None\<close> when the
  file does not exist), how many times the file has been opened for writing, and what
  has been handed to \<^verbatim>\<open>console.print\<close>, in order. What the \<^verbatim>\<open>rich\<close> library makes
  of a printed text or table is outside this development.
\<close>

type_synonym row = "pystr \<times> pystr \<times> pyval"

datatype printed = Markup pystr | TableOf "row list"

record world =
  tasks_file :: "pystr option"
  writes :: nat
  console :: "printed list"

definition console_print :: "printed \<Rightarrow> world \<Rightarrow> world" where
  "console_print x w = w\<lparr>console := console w @ [x]\<rparr>"

definition load_tasks :: "world \<Rightarrow> exc + pyval" where
  "load_tasks w =
    (case tasks_file w of
       None \<Rightarrow> Inr (PList [])
     | Some text \<Rightarrow>
         (case json_loads text of
            Inl JSONDecodeError \<Rightarrow> Inr (PList [])
          | Inl e \<Rightarrow> Inl e
          | Inr v \<Rightarrow> Inr v))"

definition save_tasks :: "pyval \<Rightarrow> world \<Rightarrow> world" where
  "save_tasks tasks w = w\<lparr>tasks_file := Some (json_dumps tasks), writes := Suc (writes w)\<rparr>"

definition get_next_id :: "world \<Rightarrow> exc + int" where
  "get_next_id w =
    (case load_tasks w of
       Inl e \<Rightarrow> Inl e
     | Inr tasks \<Rightarrow>
         if \<not> truthy tasks then Inr 1
         else
           (case py_iter tasks of
              Inl e \<Rightarrow> Inl e
            | Inr items \<Rightarrow>
                (case max_id items of
                   Inl e \<Rightarrow> Inl e
                 | Inr m \<Rightarrow> py_add1 m)))"

section \<open>The commands\<close>

text \<open>
  A command runs on a world and ends in a world, either by returning (\<open>None\<close>) or by
  an exception (\<open>Some e\<close>). The process exits with status 0 when the command returns,
  with the code of \<^verbatim>\<open>typer.Exit\<close>, and with status 1 on any other exception.
\<close>

type_synonym outcome = "exc option \<times> world"

fun exit_status :: "exc option \<Rightarrow> int option" where
  "exit_status None = Some 0"
| "exit_status (Some (Exit c)) = Some c"
| "exit_status (Some Unmodelled) = None"
| "exit_status (Some e) = Some 1"

text \<open>
  \<open>add\<close>: \<open>now\<close> is \<^verbatim>\<open>datetime.now().strftime("%Y-%m-%d %H:%M")\<close> at the call.
\<close>

definition added_task :: "pystr \<Rightarrow> printed" where
  "added_task description =
    Markup (lit ''[bold green]'' @ [9989] @ lit '' Added task:[/bold green] ''
            @ [39] @ description @ [39])"

definition add :: "pystr \<Rightarrow> pystr \<Rightarrow> world \<Rightarrow> outcome" where
  "add description now w =
    (case load_tasks w of
       Inl e \<Rightarrow> (Some e, w)
     | Inr tasks \<Rightarrow>
         (case get_next_id w of
            Inl e \<Rightarrow> (Some e, w)
          | Inr new_id \<Rightarrow>
              let new_task = PDict
                    [(lit ''id'', PInt new_id),
                     (lit ''description'', PStr description),
                     (lit ''status'', PStr (lit ''pending'')),
                     (lit ''created_at'', PStr now)]
              in (case py_append tasks new_task of
                    Inl e \<Rightarrow> (Some e, w)
                  | Inr tasks' \<Rightarrow>
                      (None, console_print (added_task description) (save_tasks tasks' w)))))"

text \<open>
  \<open>list\<close>: the rows are made in the order of the sorted tasks; a row holds what
  \<^verbatim>\<open>table.add_row\<close> is given.
\<close>

definition status_text :: "pyval \<Rightarrow> exc + pystr" where
  "status_text st =
    (let status_color = (if eq_str st (lit ''done'') then lit ''green'' else lit ''yellow'');
         status_icon = (if eq_str st (lit ''done'') then [9989] else [9203])
     in case capitalize st of
          Inl e \<Rightarrow> Inl e
        | Inr cap \<Rightarrow>
            Inr (lit ''['' @ status_color @ lit '']'' @ status_icon @ lit '' '' @ cap
                 @ lit ''[/'' @ status_color @ lit '']''))"

fun table_rows :: "bool \<Rightarrow> pyval list \<Rightarrow> exc + row list" where
  "table_rows hide_done [] = Inr []"
| "table_rows hide_done (task # tasks) =
    (case getitem task (lit ''status'') of
       Inl e \<Rightarrow> Inl e
     | Inr st \<Rightarrow>
         if hide_done \<and> eq_str st (lit ''done'') then table_rows hide_done tasks
         else
           (case status_text st of
              Inl e \<Rightarrow> Inl e
            | Inr text \<Rightarrow>
                (case getitem task (lit ''id'') of
                   Inl e \<Rightarrow> Inl e
                 | Inr i \<Rightarrow>
                     (case py_str i of
                        Inl e \<Rightarrow> Inl e
                      | Inr id_text \<Rightarrow>
                          (case getitem task (lit ''description'') of
                             Inl e \<Rightarrow> Inl e
                           | Inr d \<Rightarrow>
                               (case table_rows hide_done tasks of
                                  Inl e \<Rightarrow> Inl e
                                | Inr rows \<Rightarrow> Inr ((id_text, text, d) # rows)))))))"

definition no_tasks_found :: printed where
  "no_tasks_found =
    Markup (lit ''[bold yellow]No tasks found. Add one with '' @ [39] @ lit ''add''
            @ [39] @ lit '' command![/bold yellow]'')"

definition list_cmd :: "bool \<Rightarrow> world \<Rightarrow> outcome" where
  "list_cmd hide_done w =
    (case load_tasks w of
       Inl e \<Rightarrow> (Some e, w)
     | Inr tasks \<Rightarrow>
         if \<not> truthy tasks then
           (None, console_print no_tasks_found w)
         else
           (case py_iter tasks of
              Inl e \<Rightarrow> (Some e, w)
            | Inr items \<Rightarrow>
                (case sorted_by_id items of
                   Inl e \<Rightarrow> (Some e, w)
                 | Inr ordered \<Rightarrow>
                     (case table_rows hide_done ordered of
                        Inl e \<Rightarrow> (Some e, w)
                      | Inr rows \<Rightarrow> (None, console_print (TableOf rows) w)))))"

text \<open>
  \<open>done\<close>: \<^verbatim>\<open>next((task for task in tasks if task['id'] == task_id), None)\<close> looks at
  the items in order and stops at the first match; \<open>find_task\<close> gives its position.
  The task found is an item of \<^verbatim>\<open>tasks\<close>, so setting its status changes \<^verbatim>\<open>tasks\<close>.
\<close>

fun find_task :: "int \<Rightarrow> pyval list \<Rightarrow> exc + nat option" where
  "find_task task_id [] = Inr None"
| "find_task task_id (task # tasks) =
    (case getitem task (lit ''id'') of
       Inl e \<Rightarrow> Inl e
     | Inr i \<Rightarrow>
         if eq_int i task_id then Inr (Some 0)
         else
           (case find_task task_id tasks of
              Inl e \<Rightarrow> Inl e
            | Inr None \<Rightarrow> Inr None
            | Inr (Some n) \<Rightarrow> Inr (Some (Suc n))))"

fun set_status_done :: "pyval \<Rightarrow> pyval" where
  "set_status_done (PDict kvs) = PDict (dict_set kvs (lit ''status'') (PStr (lit ''done'')))"
| "set_status_done v = v"

fun update_item :: "pyval \<Rightarrow> nat \<Rightarrow> pyval \<Rightarrow> pyval" where
  "update_item (PList xs) n x = PList (xs[n := x])"
| "update_item v n x = v"

definition not_found :: "int \<Rightarrow> world \<Rightarrow> outcome" where
  "not_found task_id w =
    (Some (Exit 1),
     console_print
       (Markup (lit ''[bold red]Error:[/bold red] Task with ID '' @ int_repr task_id
                @ lit '' not found.''))
       w)"

definition marked_complete :: "int \<Rightarrow> printed" where
  "marked_complete task_id =
    Markup (lit ''[bold green]'' @ [127881] @ lit '' Task '' @ int_repr task_id
            @ lit '' marked as complete![/bold green]'')"

definition already_done :: "int \<Rightarrow> printed" where
  "already_done task_id =
    Markup (lit ''[bold yellow]Warning:[/bold yellow] Task '' @ int_repr task_id
            @ lit '' is already marked as done.'')"

definition done_cmd :: "int \<Rightarrow> world \<Rightarrow> outcome" where
  "done_cmd task_id w =
    (case load_tasks w of
       Inl e \<Rightarrow> (Some e, w)
     | Inr tasks \<Rightarrow>
         (case py_iter tasks of
            Inl e \<Rightarrow> (Some e, w)
          | Inr items \<Rightarrow>
              (case find_task task_id items of
                 Inl e \<Rightarrow> (Some e, w)
               | Inr None \<Rightarrow> not_found task_id w
               | Inr (Some n) \<Rightarrow>
                   let task_to_complete = items ! n in
                   if \<not> truthy task_to_complete then not_found task_id w
                   else
                     (case getitem task_to_complete (lit ''status'') of
                        Inl e \<Rightarrow> (Some e, w)
                      | Inr st \<Rightarrow>
                          if eq_str st (lit ''done'') then
                            (None, console_print (already_done task_id) w)
                          else
                            (None,
                             console_print (marked_complete task_id)
                               (save_tasks
                                  (update_item tasks n (set_status_done task_to_complete))
                                  w))))))"

text \<open>\<open>delete\<close>: the list comprehension looks at every item.\<close>

fun without_id :: "int \<Rightarrow> pyval list \<Rightarrow> exc + pyval list" where
  "without_id task_id [] = Inr []"
| "without_id task_id (task # tasks) =
    (case getitem task (lit ''id'') of
       Inl e \<Rightarrow> Inl e
     | Inr i \<Rightarrow>
         (case without_id task_id tasks of
            Inl e \<Rightarrow> Inl e
          | Inr kept \<Rightarrow> Inr (if eq_int i task_id then kept else task # kept)))"

definition deleted_task :: "int \<Rightarrow> printed" where
  "deleted_task task_id =
    Markup (lit ''[bold green]'' @ [128465, 65039] @ lit '' Task '' @ int_repr task_id
            @ lit '' deleted successfully.[/bold green]'')"

definition delete :: "int \<Rightarrow> world \<Rightarrow> outcome" where
  "delete task_id w =
    (case load_tasks w of
       Inl e \<Rightarrow> (Some e, w)
     | Inr tasks \<Rightarrow>
         (case py_len tasks of
            Inl e \<Rightarrow> (Some e, w)
          | Inr original_count \<Rightarrow>
              (case py_iter tasks of
                 Inl e \<Rightarrow> (Some e, w)
               | Inr items \<Rightarrow>
                   (case without_id task_id items of
                      Inl e \<Rightarrow> (Some e, w)
                    | Inr kept \<Rightarrow>
                        if length kept = original_count then not_found task_id w
                        else
                          (None,
                           console_print (deleted_task task_id) (save_tasks (PList kept) w))))))"

section \<open>Well-formed values and stores\<close>

text \<open>
  A character that text can hold: a code point that is not a high surrogate
  (\<open>0xD800\<close> to \<open>0xDBFF\<close>). The encoder writes a code point from \<open>0x10000\<close> on as a
  high and a low surrogate escape, and the decoder reads such a pair back as one code
  point, so a string that held the two surrogates as two characters would not come
  back as it was.
\<close>

definition char_ok :: "nat \<Rightarrow> bool" where
  "char_ok c = (c < 1114112 \<and> \<not> (55296 \<le> c \<and> c \<le> 56319))"

definition str_ok :: "pystr \<Rightarrow> bool" where
  "str_ok s = list_all char_ok s"

text \<open>
  A value that comes back from the file as it was written: its strings are text, and
  no dictionary holds a key twice (no dictionary of Python does).
\<close>

fun val_ok :: "pyval \<Rightarrow> bool" where
  "val_ok PNone = True"
| "val_ok (PBool b) = True"
| "val_ok (PInt i) = True"
| "val_ok (PStr s) = str_ok s"
| "val_ok (PList xs) = list_all val_ok xs"
| "val_ok (PDict kvs) =
    (distinct (map fst kvs) \<and> list_all (\<lambda>kv. str_ok (fst kv) \<and> val_ok (snd kv)) kvs)"

text \<open>The fuel that reading a value back takes, and the texts that can follow a number.\<close>

fun need :: "pyval \<Rightarrow> nat" where
  "need PNone = 1"
| "need (PBool b) = 1"
| "need (PInt i) = 1"
| "need (PStr s) = 1"
| "need (PList xs) = Suc (sum_list (map (\<lambda>x. Suc (need x)) xs))"
| "need (PDict kvs) = Suc (sum_list (map (\<lambda>kv. Suc (need (snd kv))) kvs))"

definition num_end :: "pystr \<Rightarrow> bool" where
  "num_end r =
    (case r of [] \<Rightarrow> True | c # _ \<Rightarrow> \<not> is_digit c \<and> c \<noteq> 46 \<and> c \<noteq> 101 \<and> c \<noteq> 69)"

text \<open>
  A task as \<open>add\<close> writes it: a dictionary with the keys \<^verbatim>\<open>id\<close>, \<^verbatim>\<open>description\<close>,
  \<^verbatim>\<open>status\<close> and \<^verbatim>\<open>created_at\<close>, in this order, an integer id, and the status
  \<^verbatim>\<open>"pending"\<close> or \<^verbatim>\<open>"done"\<close>. A store is a list of such tasks; \<open>holds w ts\<close> says
  that \<^verbatim>\<open>load_tasks\<close> returns the store \<open>ts\<close> in the world \<open>w\<close>.
\<close>

datatype status = Pending | Done

record task =
  task_id :: int
  task_description :: pystr
  task_status :: status
  task_created_at :: pystr

fun status_str :: "status \<Rightarrow> pystr" where
  "status_str Pending = lit ''pending''"
| "status_str Done = lit ''done''"

definition task_dict :: "task \<Rightarrow> pyval" where
  "task_dict t = PDict
     [(lit ''id'', PInt (task_id t)),
      (lit ''description'', PStr (task_description t)),
      (lit ''status'', PStr (status_str (task_status t))),
      (lit ''created_at'', PStr (task_created_at t))]"

definition store_of :: "task list \<Rightarrow> pyval" where
  "store_of ts = PList (map task_dict ts)"

definition task_ok :: "task \<Rightarrow> bool" where
  "task_ok t = (str_ok (task_description t) \<and> str_ok (task_created_at t))"

definition holds :: "world \<Rightarrow> task list \<Rightarrow> bool" where
  "holds w ts = (load_tasks w = Inr (store_of ts))"

text \<open>The id \<open>get_next_id\<close> gives for a store, and the row \<open>list\<close> makes for a task.\<close>

definition next_id :: "task list \<Rightarrow> int" where
  "next_id ts = (if ts = [] then 1 else 1 + Max (task_id ` set ts))"


text \<open>The store after \<open>done k\<close>: the task with id \<open>k\<close> is done, all else is as it was.\<close>

definition mark_done :: "int \<Rightarrow> task list \<Rightarrow> task list" where
  "mark_done k ts = map (\<lambda>u. if task_id u = k then u\<lparr>task_status := Done\<rparr> else u) ts"

text \<open>Worlds and stores to run the commands on.\<close>

definition fresh_world :: "pystr option \<Rightarrow> world" where
  "fresh_world file = \<lparr>tasks_file = file, writes = 0, console = []\<rparr>"

definition example_tasks :: "task list" where
  "example_tasks =
    [\<lparr>task_id = 2, task_description = lit ''write report'', task_status = Done,
      task_created_at = lit ''2024-01-01 10:00''\<rparr>,
     \<lparr>task_id = 7, task_description = lit ''buy milk'', task_status = Pending,
      task_created_at = lit ''2024-01-02 11:30''\<rparr>,
     \<lparr>task_id = 4, task_description = lit ''call home'', task_status = Pending,
      task_created_at = lit ''2024-01-03 09:15''\<rparr>]"

definition example_world :: world where
  "example_world = fresh_world (Some (json_dumps (store_of example_tasks)))"



section \<open>Decoding what the encoder wrote\<close>

subsection \<open>Hexadecimal escapes\<close>

lemma hex_value_hex_digit: "d < 16 \<Longrightarrow> hex_value (hex_digit d) = Some d"
  by (auto simp: hex_value_def hex_digit_def)

lemma hex_digits_small: "n < 16 \<Longrightarrow> hex_digits n = [hex_digit n]"
  by (simp add: hex_digits.simps)

lemma hex_digits_step: "16 \<le> n \<Longrightarrow> hex_digits n = hex_digits (n div 16) @ [hex_digit (n mod 16)]"
  by (subst hex_digits.simps) simp

lemma replicate_48:
  "replicate 3 (48::nat) = [48, 48, 48]" "replicate 2 (48::nat) = [48, 48]"
  by (simp_all add: numeral_3_eq_3 numeral_2_eq_2)

lemma hex_digit_0: "hex_digit 0 = 48"
  by (simp add: hex_digit_def)

lemma fmt_04x_4: 
  assumes n: "n < 65536"
  shows "fmt_04x n = [hex_digit (n div 4096), hex_digit (n div 256 mod 16), hex_digit (n div 16 mod 16), hex_digit (n mod 16)]"
proof -
  have c: "n div 16 div 16 = n div 256" "n div 256 div 16 = n div 4096"
    by (simp_all add: div_mult2_eq)
  consider "n < 16" | "16 \<le> n" "n < 256" | "256 \<le> n" "n < 4096" | "4096 \<le> n"
    by linarith
  then show ?thesis
  proof cases
    case 1
    then have d: "n div 4096 = 0" "n div 256 = 0" "n div 16 = 0" "n mod 16 = n" by simp_all
    have "hex_digits n = [hex_digit n]" using 1 by (rule hex_digits_small)
    then show ?thesis
      unfolding fmt_04x_def d by (simp add: replicate_48 hex_digit_0)
  next
    case 2
    then have a: "n div 16 < 16" by simp
    have b: "16 \<le> n" using 2 by simp
    have d: "n div 4096 = 0" "n div 256 = 0" "n div 16 mod 16 = n div 16" using 2 by simp_all
    have "hex_digits n = [hex_digit (n div 16), hex_digit (n mod 16)]"
      using hex_digits_step[OF b] hex_digits_small[OF a] by simp
    then show ?thesis
      unfolding fmt_04x_def d by (simp add: replicate_48 hex_digit_0)
  next
    case 3
    then have a: "16 \<le> n div 16" "n div 256 < 16" by simp_all
    have b: "16 \<le> n" using 3 by simp
    have d: "n div 4096 = 0" "n div 256 mod 16 = n div 256" using 3 by simp_all
    have "hex_digits (n div 16) = [hex_digit (n div 256), hex_digit (n div 16 mod 16)]"
      using hex_digits_step[OF a(1)] hex_digits_small[OF a(2)] by (simp add: c)
    then have "hex_digits n = [hex_digit (n div 256), hex_digit (n div 16 mod 16), hex_digit (n mod 16)]"
      using hex_digits_step[OF b] by simp
    then show ?thesis
      unfolding fmt_04x_def d by (simp add: hex_digit_0)
  next
    case 4
    have a: "16 \<le> n div 16" "16 \<le> n div 256" "n div 4096 < 16"
      using 4 n by simp_all
    have b: "16 \<le> n" using 4 by simp
    have "hex_digits (n div 256) = [hex_digit (n div 4096), hex_digit (n div 256 mod 16)]"
      using hex_digits_step[OF a(2)] hex_digits_small[OF a(3)] by (simp add: c)
    then have "hex_digits (n div 16) = [hex_digit (n div 4096), hex_digit (n div 256 mod 16), hex_digit (n div 16 mod 16)]"
      using hex_digits_step[OF a(1)] by (simp add: c)
    then have "hex_digits n = [hex_digit (n div 4096), hex_digit (n div 256 mod 16), hex_digit (n div 16 mod 16), hex_digit (n mod 16)]"
      using hex_digits_step[OF b] by simp
    then show ?thesis
      unfolding fmt_04x_def by simp
  qed
qed

lemma hex4_value: "((n div 4096 * 16 + n div 256 mod 16) * 16 + n div 16 mod 16) * 16 + n mod 16 = (n::nat)"
proof -
  have a: "n div 256 = n div 16 div 16" "n div 4096 = n div 16 div 16 div 16" by (simp_all add: div_mult2_eq)
  have "n = (n div 16) * 16 + n mod 16" by simp
  moreover have "n div 16 = (n div 16 div 16) * 16 + n div 16 mod 16" by simp
  moreover have "n div 16 div 16 = (n div 16 div 16 div 16) * 16 + n div 16 div 16 mod 16" by simp
  ultimately show ?thesis unfolding a by presburger
qed

lemma decode_uXXXX_digits:
  assumes "a < 16" "b < 16" "c < 16" "d < 16"
  shows "decode_uXXXX (hex_digit a # hex_digit b # hex_digit c # hex_digit d # t)
           = Some (((a * 16 + b) * 16 + c) * 16 + d)"
  unfolding decode_uXXXX_def
  by (simp only: list.case hex_value_hex_digit[OF assms(1)] hex_value_hex_digit[OF assms(2)]
        hex_value_hex_digit[OF assms(3)] hex_value_hex_digit[OF assms(4)] prod.case option.case)

lemma decode_fmt_04x: 
  assumes n: "n < 65536" shows "decode_uXXXX (fmt_04x n @ t) = Some n"
proof -
  have a: "n div 4096 < 16" using n by simp
  have b: "n div 256 mod 16 < 16" "n div 16 mod 16 < 16" "n mod 16 < 16" by simp_all
  have "decode_uXXXX (fmt_04x n @ t) = Some (((n div 4096 * 16 + n div 256 mod 16) * 16 + n div 16 mod 16) * 16 + n mod 16)"
    unfolding fmt_04x_4[OF n] append.simps by (rule decode_uXXXX_digits[OF a b])
  then show ?thesis by (simp only: hex4_value)
qed

lemma length_fmt_04x: "n < 65536 \<Longrightarrow> length (fmt_04x n) = 4"
  by (simp add: fmt_04x_4)

subsection \<open>Strings\<close>

lemma drop_fmt_04x: "n < 65536 \<Longrightarrow> drop 4 (fmt_04x n @ t) = t"
  by (simp add: length_fmt_04x)

lemma scanstring_u_escape:
  assumes "c < 65536" "\<not> (55296 \<le> c \<and> c \<le> 56319)"
  shows "scanstring (92 # 117 # fmt_04x c @ t) acc = scanstring t (acc @ [c])"
  using assms
  by (subst scanstring.simps) (auto simp add: decode_fmt_04x drop_fmt_04x simp del: drop_append take_append)

lemma scanstring_pair_escape:
  assumes h: "55296 \<le> h" "h \<le> 56319" and l: "56320 \<le> l" "l \<le> 57343"
  shows "scanstring (92 # 117 # fmt_04x h @ 92 # 117 # fmt_04x l @ t) acc
           = scanstring t (acc @ [65536 + (h - 55296) * 1024 + (l - 56320)])"
proof -
  have hl: "h < 65536" "l < 65536" using h l by simp_all
  have a: "drop 4 (fmt_04x h @ 92 # 117 # fmt_04x l @ t) = 92 # 117 # fmt_04x l @ t"
    by (rule drop_fmt_04x[OF hl(1)])
  have b: "drop 6 (fmt_04x h @ 92 # 117 # fmt_04x l @ t) = fmt_04x l @ t"
    by (simp add: length_fmt_04x[OF hl(1)])
  have c: "drop 10 (fmt_04x h @ 92 # 117 # fmt_04x l @ t) = t"
    by (simp add: length_fmt_04x[OF hl(1)] length_fmt_04x[OF hl(2)])
  show ?thesis
    by (subst scanstring.simps)
      (simp add: decode_fmt_04x[OF hl(1)] decode_fmt_04x[OF hl(2)] a b c h l del: drop_append take_append)
qed

lemma scanstring_escape_char:
  assumes "char_ok c"
  shows "scanstring (escape_char c @ t) acc = scanstring t (acc @ [c])"
proof -
  consider "c = 92 \<or> c = 34 \<or> c = 8 \<or> c = 12 \<or> c = 10 \<or> c = 13 \<or> c = 9"
    | "c \<noteq> 92" "c \<noteq> 34" "32 \<le> c" "c \<le> 126"
    | "c \<noteq> 8" "c \<noteq> 12" "c \<noteq> 10" "c \<noteq> 13" "c \<noteq> 9" "c < 32 \<or> 126 < c" "c < 65536"
    | "65536 \<le> c"
    by linarith
  then show ?thesis
  proof cases
    case 1
    then show ?thesis
      by (auto simp: escape_char_def backslash_def scanstring.simps)
  next
    case 2
    then show ?thesis
      by (simp add: escape_char_def scanstring.simps)
  next
    case 3
    then have e: "escape_char c = 92 # 117 # fmt_04x c"
      by (auto simp: escape_char_def)
    have "\<not> (55296 \<le> c \<and> c \<le> 56319)" using assms by (simp add: char_ok_def)
    then show ?thesis
      unfolding e using scanstring_u_escape[OF 3(7)] by simp
  next
    case 4
    define n where "n = c - 65536"
    have n: "n < 1048576" "c = 65536 + n" using assms 4 by (simp_all add: char_ok_def n_def)
    have d: "n div 1024 mod 1024 = n div 1024" using n(1) by simp
    have e: "escape_char c = 92 # 117 # fmt_04x (55296 + n div 1024) @ 92 # 117 # fmt_04x (56320 + n mod 1024)"
      using 4 by (simp add: escape_char_def n_def[symmetric] Let_def d)
    have h: "55296 \<le> 55296 + n div 1024" "55296 + n div 1024 \<le> 56319" using n(1) by simp_all
    have l: "56320 \<le> 56320 + n mod 1024" "56320 + n mod 1024 \<le> 57343" by simp_all
    have v: "65536 + (55296 + n div 1024 - 55296) * 1024 + (56320 + n mod 1024 - 56320) = c"
      using n(2) by simp
    show ?thesis
      unfolding e using scanstring_pair_escape[OF h l, of t acc] by (simp only: append.simps append_assoc v)
  qed
qed

lemma scanstring_encoded:
  "str_ok s \<Longrightarrow> scanstring (concat (map escape_char s) @ 34 # t) acc = Inr (acc @ s, t)"
  unfolding str_ok_def
proof (induction s arbitrary: acc)
  case Nil
  show ?case by (simp add: scanstring.simps)
next
  case (Cons c s)
  then show ?case by (simp add: scanstring_escape_char)
qed

lemma scanstring_basestring:
  "str_ok s \<Longrightarrow> scanstring (tl (encode_basestring_ascii s) @ t) [] = Inr (s, t)"
  using scanstring_encoded[of s t "[]"] by (simp add: encode_basestring_ascii_def)

subsection \<open>Integers\<close>

lemma dec_digits_small: "n < 10 \<Longrightarrow> dec_digits n = [48 + n]"
  by (simp add: dec_digits.simps)

lemma dec_digits_step: "10 \<le> n \<Longrightarrow> dec_digits n = dec_digits (n div 10) @ [48 + n mod 10]"
  by (subst dec_digits.simps) simp

lemma dec_digits_all: "list_all is_digit (dec_digits n)"
proof (induction n rule: dec_digits.induct)
  case (1 n)
  show ?case
  proof (cases "n < 10")
    case True
    then show ?thesis by (simp add: dec_digits_small is_digit_def)
  next
    case False
    then show ?thesis using 1 by (simp add: dec_digits_step is_digit_def)
  qed
qed

lemma dec_digits_nonempty: "dec_digits n \<noteq> []"
  by (subst dec_digits.simps) simp

lemma digits_value_snoc: "digits_value (ds @ [d]) = 10 * digits_value ds + (d - 48)"
  by (simp add: digits_value_def)

lemma digits_value_dec_digits: "digits_value (dec_digits n) = n"
proof (induction n rule: dec_digits.induct)
  case (1 n)
  show ?case
  proof (cases "n < 10")
    case True
    then show ?thesis by (simp add: dec_digits_small digits_value_def)
  next
    case False
    then show ?thesis using 1 by (simp add: dec_digits_step digits_value_snoc)
  qed
qed

lemma hd_dec_digits: "0 < n \<Longrightarrow> hd (dec_digits n) \<noteq> 48"
proof (induction n rule: dec_digits.induct)
  case (1 n)
  show ?case
  proof (cases "n < 10")
    case True
    then show ?thesis using 1(2) by (simp add: dec_digits_small)
  next
    case False
    then have "0 < n div 10" by simp
    then show ?thesis using 1 False by (simp add: dec_digits_step dec_digits_nonempty)
  qed
qed

lemma takeWhile_digits: "list_all is_digit ds \<Longrightarrow> num_end r \<Longrightarrow> takeWhile is_digit (ds @ r) = ds"
  by (induction ds) (auto simp: num_end_def split: list.splits)

lemma num_end_frac_exp: "num_end r \<Longrightarrow> \<not> has_frac r \<and> \<not> has_exp r"
  by (auto simp: num_end_def has_frac_def has_exp_def split: list.splits)

lemma match_number_digits:
  assumes r: "num_end r"
  shows "match_number (dec_digits n @ r) = IntMatch (int n) r"
proof -
  obtain d ds where dd: "dec_digits n = d # ds"
    using dec_digits_nonempty[of n] by (cases "dec_digits n") auto
  have all: "is_digit d" "list_all is_digit ds"
    using dec_digits_all[of n] by (simp_all add: dd)
  have d45: "d \<noteq> 45" using all(1) by (auto simp: is_digit_def)
  show ?thesis
  proof (cases "n = 0")
    case True
    then have "dec_digits n = [48]" by (simp add: dec_digits_small)
    then show ?thesis
      using num_end_frac_exp[OF r] True
      by (simp add: match_number_def is_digit_def digits_value_def)
  next
    case False
    then have "d \<noteq> 48" using hd_dec_digits[of n] by (simp add: dd)
    moreover have "digits_value (d # ds) = n" using digits_value_dec_digits[of n] by (simp add: dd)
    ultimately show ?thesis
      using num_end_frac_exp[OF r] all d45
      by (simp add: match_number_def dd takeWhile_digits[OF all(2) r])
  qed
qed

lemma match_number_int_repr:
  assumes r: "num_end r"
  shows "match_number (int_repr i @ r) = IntMatch i r"
proof (cases "i < 0")
  case True
  obtain d ds where dd: "dec_digits (nat (- i)) = d # ds"
    using dec_digits_nonempty[of "nat (- i)"] by (cases "dec_digits (nat (- i))") auto
  have all: "is_digit d" "list_all is_digit ds"
    using dec_digits_all[of "nat (- i)"] by (simp_all add: dd)
  have n0: "0 < nat (- i)" using True by simp
  then have "d \<noteq> 48" using hd_dec_digits[of "nat (- i)"] by (simp add: dd)
  moreover have "digits_value (d # ds) = nat (- i)"
    using digits_value_dec_digits[of "nat (- i)"] by (simp add: dd)
  ultimately show ?thesis
    using num_end_frac_exp[OF r] all True
    by (simp add: match_number_def int_repr_def dd takeWhile_digits[OF all(2) r])
next
  case False
  then show ?thesis
    using match_number_digits[OF r, of "nat i"] by (simp add: int_repr_def)
qed

lemma lits:
  "lit ''null'' = [110, 117, 108, 108]"
  "lit ''true'' = [116, 114, 117, 101]"
  "lit ''false'' = [102, 97, 108, 115, 101]"
  "lit ''[]'' = [91, 93]"
  "lit ''{}'' = [123, 125]"
  "lit '': '' = [58, 32]"
  by (simp_all add: lit_def)

lemma int_repr_head: "\<exists>c cs. int_repr i = c # cs \<and> (is_digit c \<or> c = 45)"
proof -
  obtain d ds where dd: "dec_digits (nat \<bar>i\<bar>) = d # ds"
    using dec_digits_nonempty[of "nat \<bar>i\<bar>"] by (cases "dec_digits (nat \<bar>i\<bar>)") auto
  have "is_digit d" using dec_digits_all[of "nat \<bar>i\<bar>"] by (simp add: dd)
  then show ?thesis using dd by (cases "i < 0") (auto simp: int_repr_def abs_if)
qed

lemma scan_once_int:
  assumes r: "num_end r"
  shows "scan_once (Suc n) (int_repr i @ r) = Inr (PInt i, r)"
proof -
  obtain c cs where h: "int_repr i = c # cs" "is_digit c \<or> c = 45"
    using int_repr_head by blast
  have m: "match_number (c # cs @ r) = IntMatch i r"
    using match_number_int_repr[OF r, of i] by (simp add: h)
  show ?thesis
    using h(2) by (auto simp: h(1) m lits is_digit_def)
qed

subsection \<open>Lists and dictionaries\<close>

lemma skip_ws_Cons: "\<not> is_ws c \<Longrightarrow> skip_ws (c # t) = c # t"
  by (simp add: skip_ws_def)

lemma skip_ws_space: "skip_ws (32 # t) = skip_ws t"
  by (simp add: skip_ws_def is_ws_def)

lemma skip_ws_newline_indent: "skip_ws (newline_indent k @ t) = skip_ws t"
  by (simp add: skip_ws_def newline_indent_def is_ws_def dropWhile_append)

lemma num_end_newline_indent: "num_end (newline_indent k @ t)"
  by (simp add: num_end_def newline_indent_def is_digit_def)

lemma num_end_comma: "num_end (44 # t)"
  by (simp add: num_end_def is_digit_def)

lemma iterencode_head:
  "\<exists>c cs. iterencode lvl v = c # cs \<and> \<not> is_ws c \<and> c \<noteq> 93 \<and> c \<noteq> 65279"
proof (cases v)
  case (PInt i)
  then show ?thesis using int_repr_head[of i] by (auto simp: is_ws_def is_digit_def)
qed (auto simp: lits is_ws_def encode_basestring_ascii_def)

lemma skip_ws_iterencode: "skip_ws (iterencode lvl v @ t) = iterencode lvl v @ t"
  using iterencode_head[of lvl v] by (auto simp: skip_ws_Cons)

lemma dict_set_fresh: "k \<notin> fst ` set d \<Longrightarrow> dict_set d k v = d @ [(k, v)]"
  by (induction d) auto

lemma foldl_dict_set:
  "distinct (map fst (d @ kvs)) \<Longrightarrow>
   foldl (\<lambda>d kv. dict_set d (fst kv) (snd kv)) d kvs = d @ kvs"
proof (induction kvs arbitrary: d)
  case Nil
  show ?case by simp
next
  case (Cons kv kvs)
  have "fst kv \<notin> fst ` set d" using Cons.prems by auto
  then have "dict_set d (fst kv) (snd kv) = d @ [kv]" by (simp add: dict_set_fresh)
  moreover have "distinct (map fst ((d @ [kv]) @ kvs))" using Cons.prems by simp
  ultimately show ?case using Cons.IH[of "d @ [kv]"] by simp
qed

lemma dict_of_pairs_distinct: "distinct (map fst kvs) \<Longrightarrow> dict_of_pairs kvs = kvs"
  using foldl_dict_set[of "[]" kvs] by (simp add: dict_of_pairs_def)

lemma parse_array_items:
  assumes IH: "\<And>x m r. x \<in> set xs \<Longrightarrow> need x \<le> m \<Longrightarrow> num_end r
                 \<Longrightarrow> scan_once m (iterencode (Suc lvl) x @ r) = Inr (x, r)"
    and "xs \<noteq> []" and "sum_list (map (\<lambda>x. Suc (need x)) xs) \<le> n"
  shows "parse_array n
           (join_items (44 # newline_indent (Suc lvl)) (map (iterencode (Suc lvl)) xs)
            @ newline_indent lvl @ 93 # rest) acc
         = Inr (PList (acc @ xs), rest)"
  using assms
proof (induction xs arbitrary: n acc)
  case Nil
  then show ?case by simp
next
  case (Cons x xs)
  obtain n' where n: "n = Suc n'" "need x \<le> n'" "sum_list (map (\<lambda>x. Suc (need x)) xs) \<le> n'"
    using Cons.prems(3) by (cases n) auto
  show ?case
  proof (cases xs)
    case Nil
    have "scan_once n' (iterencode (Suc lvl) x @ newline_indent lvl @ 93 # rest)
            = Inr (x, newline_indent lvl @ 93 # rest)"
      by (rule Cons.prems(1)) (simp_all add: n num_end_newline_indent)
    then show ?thesis
      by (simp add: Nil n skip_ws_newline_indent skip_ws_Cons is_ws_def)
  next
    case (Cons y ys)
    let ?t = "join_items (44 # newline_indent (Suc lvl)) (map (iterencode (Suc lvl)) xs)
              @ newline_indent lvl @ 93 # rest"
    have s: "scan_once n' (iterencode (Suc lvl) x @ 44 # newline_indent (Suc lvl) @ ?t)
            = Inr (x, 44 # newline_indent (Suc lvl) @ ?t)"
      by (rule Cons.prems(1)) (simp_all add: n num_end_comma)
    have t: "skip_ws ?t = ?t"
      using skip_ws_iterencode[of "Suc lvl" y] by (cases ys) (simp_all add: Cons)
    have r: "parse_array n' ?t (acc @ [x]) = Inr (PList ((acc @ [x]) @ xs), rest)"
      by (rule Cons.IH) (use Cons.prems(1) n(3) Cons in auto)
    show ?thesis
      using s r t by (simp add: Cons n skip_ws_newline_indent skip_ws_Cons is_ws_def)
  qed
qed


lemma parse_object_items:
  assumes IH: "\<And>kv m r. kv \<in> set kvs \<Longrightarrow> need (snd kv) \<le> m \<Longrightarrow> num_end r
                 \<Longrightarrow> scan_once m (iterencode (Suc lvl) (snd kv) @ r) = Inr (snd kv, r)"
    and "kvs \<noteq> []" and "sum_list (map (\<lambda>kv. Suc (need (snd kv))) kvs) \<le> n"
    and "list_all (\<lambda>kv. str_ok (fst kv)) kvs"
  shows "parse_object n
           (tl (join_items (44 # newline_indent (Suc lvl))
                 (map (\<lambda>kv. encode_basestring_ascii (fst kv) @ lit '': ''
                              @ iterencode (Suc lvl) (snd kv)) kvs)
                @ newline_indent lvl @ 125 # rest)) acc
         = Inr (PDict (dict_of_pairs (acc @ kvs)), rest)"
  using assms
proof (induction kvs arbitrary: n acc)
  case Nil
  then show ?case by simp
next
  case (Cons kv kvs)
  obtain n' where n: "n = Suc n'" "need (snd kv) \<le> n'"
      "sum_list (map (\<lambda>kv. Suc (need (snd kv))) kvs) \<le> n'"
    using Cons.prems(3) by (cases n) auto
  have k: "str_ok (fst kv)" using Cons.prems(4) by simp
  let ?item = "\<lambda>kv. encode_basestring_ascii (fst kv) @ lit '': '' @ iterencode (Suc lvl) (snd kv)"
  have key: "\<And>t. scanstring (tl (encode_basestring_ascii (fst kv)) @ t) [] = Inr (fst kv, t)"
    by (rule scanstring_basestring[OF k])
  have tl_item: "\<And>t. tl (?item kv @ t) = tl (encode_basestring_ascii (fst kv)) @ 58 # 32 # iterencode (Suc lvl) (snd kv) @ t"
    by (simp add: encode_basestring_ascii_def lits)
  show ?case
  proof (cases kvs)
    case Nil
    have "scan_once n' (iterencode (Suc lvl) (snd kv) @ newline_indent lvl @ 125 # rest)
            = Inr (snd kv, newline_indent lvl @ 125 # rest)"
      by (rule Cons.prems(1)) (simp_all add: n num_end_newline_indent)
    then show ?thesis
      by (simp add: Nil n tl_item key skip_ws_Cons is_ws_def skip_ws_iterencode
            skip_ws_newline_indent skip_ws_space del: append_assoc)
  next
    case (Cons kv2 kvs2)
    let ?t = "join_items (44 # newline_indent (Suc lvl)) (map ?item kvs)
              @ newline_indent lvl @ 125 # rest"
    have s: "scan_once n' (iterencode (Suc lvl) (snd kv) @ 44 # newline_indent (Suc lvl) @ ?t)
            = Inr (snd kv, 44 # newline_indent (Suc lvl) @ ?t)"
      by (rule Cons.prems(1)) (simp_all add: n num_end_comma)
    have t: "skip_ws ?t = 34 # tl ?t"
      by (cases kvs2) (simp_all add: Cons encode_basestring_ascii_def skip_ws_Cons is_ws_def)
    have r: "parse_object n' (tl ?t) (acc @ [kv]) = Inr (PDict (dict_of_pairs ((acc @ [kv]) @ kvs)), rest)"
      by (rule Cons.IH) (use Cons.prems(1,4) n(3) Cons in auto)
    have e: "tl (join_items (44 # newline_indent (Suc lvl)) (map ?item (kv # kvs))
                @ newline_indent lvl @ 125 # rest)
              = tl (encode_basestring_ascii (fst kv)) @ 58 # 32 # iterencode (Suc lvl) (snd kv)
                @ 44 # newline_indent (Suc lvl) @ ?t"
      using tl_item[of "44 # newline_indent (Suc lvl) @ ?t"] by (simp add: Cons)
    show ?thesis
      unfolding e n(1)
      using s r t
      by (simp add: key skip_ws_Cons is_ws_def skip_ws_iterencode
            skip_ws_newline_indent skip_ws_space)
  qed
qed

subsection \<open>Whole documents\<close>

lemma scan_once_iterencode:
  "val_ok v \<Longrightarrow> need v \<le> n \<Longrightarrow> num_end r \<Longrightarrow> scan_once n (iterencode lvl v @ r) = Inr (v, r)"
proof (induction lvl v arbitrary: n r rule: iterencode.induct)
  case (1 level)
  then obtain m where "n = Suc m" by (cases n) auto
  then show ?case by (simp add: lits)
next
  case (2 level b)
  then obtain m where "n = Suc m" by (cases n) auto
  then show ?case by (simp add: lits)
next
  case (3 level i)
  then obtain m where "n = Suc m" by (cases n) auto
  then show ?case using scan_once_int[OF 3(3)] by simp
next
  case (4 level s)
  then obtain m where "n = Suc m" by (cases n) auto
  moreover have "scanstring (tl (encode_basestring_ascii s) @ r) [] = Inr (s, r)"
    using 4(1) by (simp add: scanstring_basestring)
  ultimately show ?case by (simp add: encode_basestring_ascii_def)
next
  case (5 level xs)
  obtain m where n: "n = Suc m" "sum_list (map (\<lambda>x. Suc (need x)) xs) \<le> m"
    using 5(3) by (cases n) auto
  show ?case
  proof (cases "xs = []")
    case True
    then show ?thesis by (simp add: n lits skip_ws_Cons is_ws_def)
  next
    case False
    let ?t = "join_items (44 # newline_indent (Suc level)) (map (iterencode (Suc level)) xs)
              @ newline_indent level @ 93 # r"
    have IH: "\<And>x m r. x \<in> set xs \<Longrightarrow> need x \<le> m \<Longrightarrow> num_end r
                 \<Longrightarrow> scan_once m (iterencode (Suc level) x @ r) = Inr (x, r)"
      using 5(1)[OF False] 5(2) by (simp add: list_all_iff)
    have p: "parse_array m ?t [] = Inr (PList ([] @ xs), r)"
      by (rule parse_array_items[OF IH False n(2)])
    obtain y ys where xs: "xs = y # ys" using False by (cases xs) auto
    obtain c cs where h: "iterencode (Suc level) y = c # cs" "\<not> is_ws c" "c \<noteq> 93"
      using iterencode_head[of "Suc level" y] by blast
    have t: "skip_ws ?t = ?t"
      using skip_ws_iterencode[of "Suc level" y] by (cases ys) (simp_all add: xs)
    have c: "\<exists>cs'. ?t = c # cs'"
      by (cases ys) (simp_all add: xs h)
    then obtain cs' where c': "?t = c # cs'" by blast
    have "scan_once (Suc m) (91 # newline_indent (Suc level) @ ?t) = Inr (PList xs, r)"
      using p h(2,3) by (simp add: skip_ws_newline_indent c' skip_ws_Cons)
    then show ?thesis using False by (simp add: n)
  qed
next
  case (6 level kvs)
  obtain m where n: "n = Suc m" "sum_list (map (\<lambda>kv. Suc (need (snd kv))) kvs) \<le> m"
    using 6(3) by (cases n) auto
  show ?case
  proof (cases "kvs = []")
    case True
    then show ?thesis by (simp add: n lits skip_ws_Cons is_ws_def)
  next
    case False
    let ?item = "\<lambda>kv. encode_basestring_ascii (fst kv) @ lit '': '' @ iterencode (Suc level) (snd kv)"
    let ?t = "join_items (44 # newline_indent (Suc level)) (map ?item kvs)
              @ newline_indent level @ 125 # r"
    have IH: "\<And>kv m r. kv \<in> set kvs \<Longrightarrow> need (snd kv) \<le> m \<Longrightarrow> num_end r
                 \<Longrightarrow> scan_once m (iterencode (Suc level) (snd kv) @ r) = Inr (snd kv, r)"
      using 6(1)[OF False] 6(2) by (simp add: list_all_iff)
    have k: "list_all (\<lambda>kv. str_ok (fst kv)) kvs" using 6(2) by (simp add: list_all_iff)
    have d: "dict_of_pairs kvs = kvs" using 6(2) by (simp add: dict_of_pairs_distinct)
    have p: "parse_object m (tl ?t) [] = Inr (PDict (dict_of_pairs ([] @ kvs)), r)"
      by (rule parse_object_items[OF IH False n(2) k])
    obtain y ys where xs: "kvs = y # ys" using False by (cases kvs) auto
    have t: "skip_ws ?t = 34 # tl ?t"
      by (cases ys) (simp_all add: xs encode_basestring_ascii_def skip_ws_Cons is_ws_def)
    have "scan_once (Suc m) (123 # newline_indent (Suc level) @ ?t) = Inr (PDict kvs, r)"
      using p by (simp add: skip_ws_newline_indent t d)
    then show ?thesis using False by (simp add: n)
  qed
qed

lemma join_items_length:
  "sep \<noteq> [] \<Longrightarrow> sum_list (map (\<lambda>y. Suc (length y)) ys) \<le> Suc (length (join_items sep ys))"
proof (induction sep ys rule: join_items.induct)
  case (3 sep x y ys)
  then show ?case by (cases sep) simp_all
qed simp_all

lemma need_le_length: "need v \<le> length (iterencode lvl v)"
proof (induction lvl v rule: iterencode.induct)
  case (3 level i)
  then show ?case using int_repr_head[of i] by auto
next
  case (5 level xs)
  show ?case
  proof (cases "xs = []")
    case True
    then show ?thesis by (simp add: lits)
  next
    case False
    have "sum_list (map (\<lambda>x. Suc (need x)) xs)
            \<le> sum_list (map (\<lambda>y. Suc (length y)) (map (iterencode (Suc level)) xs))"
      unfolding map_map comp_def
      by (rule sum_list_mono) (use 5[OF False] in simp)
    also have "\<dots> \<le> Suc (length (join_items (44 # newline_indent (Suc level)) (map (iterencode (Suc level)) xs)))"
      by (rule join_items_length) simp
    finally show ?thesis using False by (simp add: newline_indent_def)
  qed
next
  case (6 level kvs)
  let ?item = "\<lambda>kv. encode_basestring_ascii (fst kv) @ lit '': '' @ iterencode (Suc level) (snd kv)"
  show ?case
  proof (cases "kvs = []")
    case True
    then show ?thesis by (simp add: lits)
  next
    case False
    have "sum_list (map (\<lambda>kv. Suc (need (snd kv))) kvs)
            \<le> sum_list (map (\<lambda>y. Suc (length y)) (map ?item kvs))"
      unfolding map_map comp_def
      by (rule sum_list_mono) (use 6[OF False] in \<open>simp add: le_SucI trans_le_add2\<close>)
    also have "\<dots> \<le> Suc (length (join_items (44 # newline_indent (Suc level)) (map ?item kvs)))"
      by (rule join_items_length) simp
    finally show ?thesis using False by (simp add: newline_indent_def)
  qed
qed (simp_all add: lits encode_basestring_ascii_def)

lemma json_loads_dumps: "val_ok v \<Longrightarrow> json_loads (json_dumps v) = Inr v"
proof -
  assume v: "val_ok v"
  obtain c cs where h: "iterencode 0 v = c # cs" "\<not> is_ws c" "c \<noteq> 65279"
    using iterencode_head[of 0 v] by blast
  have n: "need v \<le> 2 * length (iterencode 0 v) + 1"
    using need_le_length[of v 0] by simp
  have "scan_once (2 * length (iterencode 0 v) + 1) (iterencode 0 v @ []) = Inr (v, [])"
    by (rule scan_once_iterencode[OF v n]) (simp add: num_end_def)
  moreover have "skip_ws (iterencode 0 v) = iterencode 0 v"
    using skip_ws_iterencode[of 0 v "[]"] by simp
  ultimately show ?thesis
    using h(3) by (simp add: json_loads_def json_dumps_def h(1) skip_ws_def)
qed

section \<open>The commands on a store of tasks\<close>

lemma getitem_task_dict:
  "getitem (task_dict t) (lit ''id'') = Inr (PInt (task_id t))"
  "getitem (task_dict t) (lit ''description'') = Inr (PStr (task_description t))"
  "getitem (task_dict t) (lit ''status'') = Inr (PStr (status_str (task_status t)))"
  by (simp_all add: task_dict_def lit_def)

lemma truthy_task_dict: "truthy (task_dict t)"
  by (simp add: task_dict_def)

lemma str_ok_keys:
  "str_ok (lit ''id'')" "str_ok (lit ''description'')" "str_ok (lit ''status'')"
  "str_ok (lit ''created_at'')" "str_ok (lit ''pending'')" "str_ok (lit ''done'')"
  by (simp_all add: str_ok_def char_ok_def lit_def)

lemma val_ok_task_dict: "task_ok t \<Longrightarrow> val_ok (task_dict t)"
proof -
  assume t: "task_ok t"
  have d: "distinct [lit ''id'', lit ''description'', lit ''status'', lit ''created_at'']"
    by (simp add: lit_def)
  have s: "str_ok (status_str (task_status t))"
    by (cases "task_status t") (simp_all add: str_ok_keys)
  show ?thesis
    using t d s by (simp add: task_dict_def task_ok_def str_ok_keys)
qed

lemma val_ok_store_of: "list_all task_ok ts \<Longrightarrow> val_ok (store_of ts)"
  by (simp add: store_of_def list_all_iff val_ok_task_dict)

lemma load_tasks_save_tasks: "val_ok v \<Longrightarrow> load_tasks (save_tasks v w) = Inr v"
  by (simp add: load_tasks_def save_tasks_def json_loads_dumps)

lemma load_tasks_console_print: "load_tasks (console_print x w) = load_tasks w"
  by (simp add: load_tasks_def console_print_def)

lemma holds_save: "list_all task_ok ts \<Longrightarrow> holds (console_print x (save_tasks (store_of ts) w)) ts"
  by (simp add: holds_def load_tasks_console_print load_tasks_save_tasks val_ok_store_of)

lemma max_from_tasks:
  "max_from (PInt m) (map task_dict ts) = Inr (PInt (fold max (map task_id ts) m))"
proof (induction ts arbitrary: m)
  case Nil
  show ?case by simp
next
  case (Cons t ts)
  have "max (task_id t) m = (if m < task_id t then task_id t else m)" by (simp add: max_def)
  then show ?case using Cons[of "max (task_id t) m"] by (auto simp: getitem_task_dict)
qed

lemma max_id_tasks:
  "ts \<noteq> [] \<Longrightarrow> max_id (map task_dict ts) = Inr (PInt (Max (task_id ` set ts)))"
proof (cases ts)
  case Nil
  assume "ts \<noteq> []"
  with Nil show ?thesis by simp
next
  case (Cons t us)
  have "Max (set (task_id t # map task_id us)) = fold max (map task_id us) (task_id t)"
    by (rule Max.set_eq_fold)
  then show ?thesis
    by (simp add: Cons max_id_def getitem_task_dict max_from_tasks)
qed

lemma get_next_id_holds: "holds w ts \<Longrightarrow> get_next_id w = Inr (next_id ts)"
  by (cases "ts = []")
     (simp_all add: holds_def get_next_id_def store_of_def next_id_def max_id_tasks py_add1_def)

lemma find_task_absent:
  "k \<notin> task_id ` set ts \<Longrightarrow> find_task k (map task_dict ts) = Inr None"
  by (induction ts) (auto simp: getitem_task_dict eq_int_def)

lemma find_task_present:
  "k \<notin> task_id ` set xs \<Longrightarrow> task_id t = k
     \<Longrightarrow> find_task k (map task_dict (xs @ t # ys)) = Inr (Some (length xs))"
  by (induction xs) (auto simp: getitem_task_dict eq_int_def)

lemma without_id_tasks:
  "without_id k (map task_dict ts) = Inr (map task_dict (filter (\<lambda>t. task_id t \<noteq> k) ts))"
  by (induction ts) (auto simp: getitem_task_dict eq_int_def)







lemma eq_str_done: "eq_str (PStr (status_str st)) (lit ''done'') = (st = Done)"
  by (cases st) (simp_all add: eq_str_def lit_def)


lemma holds_no_file: "tasks_file w = None \<Longrightarrow> holds w []"
  by (simp add: holds_def load_tasks_def store_of_def)

lemma holds_written:
  "list_all task_ok ts \<Longrightarrow> tasks_file w = Some (json_dumps (store_of ts)) \<Longrightarrow> holds w ts"
  by (simp add: holds_def load_tasks_def json_loads_dumps val_ok_store_of)

lemma example_tasks_ok: "list_all task_ok example_tasks"
  by (simp add: example_tasks_def task_ok_def str_ok_def char_ok_def lit_def)

lemma holds_example: "holds example_world example_tasks"
  by (rule holds_written[OF example_tasks_ok]) (simp add: example_world_def fresh_world_def)

lemma filter_other_ids: "x \<notin> task_id ` set ts \<Longrightarrow> filter (\<lambda>t. task_id t \<noteq> x) ts = ts"
  by (induction ts) auto

lemma done_cmd_absent:
  "holds w ts \<Longrightarrow> x \<notin> task_id ` set ts \<Longrightarrow> done_cmd x w = not_found x w"
  by (simp add: done_cmd_def holds_def store_of_def find_task_absent)

lemma delete_absent:
  "holds w ts \<Longrightarrow> x \<notin> task_id ` set ts \<Longrightarrow> delete x w = not_found x w"
  by (simp add: delete_def holds_def store_of_def without_id_tasks filter_other_ids)

lemma task_dict_inj: "task_dict t = task_dict u \<Longrightarrow> t = u"
proof -
  assume e: "task_dict t = task_dict u"
  have "status_str (task_status t) = status_str (task_status u)"
    using e by (simp add: task_dict_def)
  then have "task_status t = task_status u"
    by (cases "task_status t"; cases "task_status u") (simp_all add: lit_def)
  then show ?thesis using e by (simp add: task_dict_def)
qed

lemma store_of_inj: "store_of ts = store_of us \<Longrightarrow> ts = us"
proof -
  assume "store_of ts = store_of us"
  then have "map task_dict ts = map task_dict us" by (simp add: store_of_def)
  moreover have "inj task_dict" by (rule injI) (rule task_dict_inj)
  ultimately show ?thesis by (simp add: inj_map_eq_map)
qed

lemma holds_unique: "holds w ts \<Longrightarrow> holds w us \<Longrightarrow> us = ts"
  by (simp add: holds_def store_of_inj)






lemma json_loads_quoted:
  "json_loads (34 # lit ''not valid json'' @ [34]) = Inr (PStr (lit ''not valid json''))"
proof -
  have "json_dumps (PStr (lit ''not valid json'')) = 34 # lit ''not valid json'' @ [34]"
    by (simp add: json_dumps_def encode_basestring_ascii_def escape_char_def lit_def)
  moreover have "val_ok (PStr (lit ''not valid json''))"
    by (simp add: str_ok_def char_ok_def lit_def)
  ultimately show ?thesis using json_loads_dumps by metis
qed

lemma json_loads_empty_object: "json_loads (lit ''{}'') = Inr (PDict [])"
  using json_loads_dumps[of "PDict []"] by (simp add: json_dumps_def)

lemma json_loads_tasks_object:
  "json_loads (json_dumps (PDict [(lit ''tasks'', PList [])])) = Inr (PDict [(lit ''tasks'', PList [])])"
  by (rule json_loads_dumps) (simp add: str_ok_def char_ok_def lit_def)

lemma load_tasks_value:
  "tasks_file w = Some text \<Longrightarrow> json_loads text = Inr v \<Longrightarrow> load_tasks w = Inr v"
  by (simp add: load_tasks_def)

lemma commands_on_string:
  assumes "load_tasks w = Inr (PStr (c # cs))"
  shows "list_cmd h w = (Some TypeError, w)" "add d now w = (Some TypeError, w)"
    "done_cmd k w = (Some TypeError, w)" "delete k w = (Some TypeError, w)"
  using assms
  by (simp_all add: list_cmd_def add_def done_cmd_def delete_def get_next_id_def
        sorted_by_id_def max_id_def)

lemma commands_on_empty_object:
  assumes "load_tasks w = Inr (PDict [])"
  shows "list_cmd h w = (None, console_print no_tasks_found w)"
    "add d now w = (Some AttributeError, w)"
    "done_cmd k w = not_found k w" "delete k w = not_found k w"
  using assms
  by (simp_all add: list_cmd_def add_def done_cmd_def delete_def get_next_id_def)

lemma commands_on_object:
  assumes "load_tasks w = Inr (PDict (kv # kvs))"
  shows "list_cmd h w = (Some TypeError, w)" "add d now w = (Some TypeError, w)"
    "done_cmd k w = (Some TypeError, w)" "delete k w = (Some TypeError, w)"
  using assms
  by (simp_all add: list_cmd_def add_def done_cmd_def delete_def get_next_id_def
        sorted_by_id_def max_id_def)



lemma set_status_done_task: "set_status_done (task_dict t) = task_dict (t\<lparr>task_status := Done\<rparr>)"
  by (simp add: task_dict_def lit_def)

lemma done_cmd_present:
  assumes "holds w (xs @ t # ys)" and "k \<notin> task_id ` set xs" and "task_id t = k"
  shows "done_cmd k w =
           (if task_status t = Done then (None, console_print (already_done k) w)
            else (None, console_print (marked_complete k)
                          (save_tasks (store_of (xs @ t\<lparr>task_status := Done\<rparr> # ys)) w)))"
proof -
  have l: "load_tasks w = Inr (PList (map task_dict (xs @ t # ys)))"
    using assms(1) by (simp add: holds_def store_of_def)
  have f: "find_task k (map task_dict (xs @ t # ys)) = Inr (Some (length xs))"
    by (rule find_task_present[OF assms(2,3)])
  have n: "map task_dict (xs @ t # ys) ! length xs = task_dict t"
    by (simp add: nth_append)
  have u: "update_item (PList (map task_dict (xs @ t # ys))) (length xs) (task_dict (t\<lparr>task_status := Done\<rparr>))
             = store_of (xs @ t\<lparr>task_status := Done\<rparr> # ys)"
    by (simp add: store_of_def list_update_append)
  show ?thesis
    unfolding done_cmd_def l
    by (simp only: sum.case py_iter.simps f option.case Let_def n truthy_task_dict not_True_eq_False
          if_False getitem_task_dict eq_str_done set_status_done_task u)
qed

lemma split_by_id:
  assumes "distinct (map task_id ts)" and "t \<in> set ts"
  shows "\<exists>xs ys. ts = xs @ t # ys \<and> task_id t \<notin> task_id ` set xs \<and> task_id t \<notin> task_id ` set ys"
proof -
  obtain xs ys where s: "ts = xs @ t # ys" using assms(2) by (meson split_list)
  have "distinct (map task_id (xs @ t # ys))" using assms(1) unfolding s .
  then have "task_id t \<notin> task_id ` set xs \<and> task_id t \<notin> task_id ` set ys" by auto
  then show ?thesis using s by blast
qed

lemma mark_done_other: "k \<notin> task_id ` set zs \<Longrightarrow> mark_done k zs = zs"
  by (induction zs) (auto simp: mark_done_def)

lemma mark_done_split:
  assumes "k \<notin> task_id ` set xs" and "k \<notin> task_id ` set ys" and "task_id t = k"
  shows "mark_done k (xs @ t # ys) = xs @ t\<lparr>task_status := Done\<rparr> # ys"
proof -
  have a: "mark_done k (xs @ t # ys) = mark_done k xs @ t\<lparr>task_status := Done\<rparr> # mark_done k ys"
    using assms(3) by (simp add: mark_done_def)
  show ?thesis
    unfolding a mark_done_other[OF assms(1)] mark_done_other[OF assms(2)] ..
qed

lemma mark_done_ids: "map task_id (mark_done k ts) = map task_id ts"
  by (induction ts) (simp_all add: mark_done_def)

lemma mark_done_ok: "list_all task_ok ts \<Longrightarrow> list_all task_ok (mark_done k ts)"
  by (induction ts) (simp_all add: mark_done_def task_ok_def)

lemma mark_done_status:
  assumes "u \<in> set (mark_done k ts)" and "task_id u = k"
  shows "task_status u = Done"
proof -
  define f where "f = (\<lambda>v::task. if task_id v = k then v\<lparr>task_status := Done\<rparr> else v)"
  have "u \<in> f ` set ts" using assms(1) unfolding mark_done_def set_map f_def .
  then obtain v where v: "u = f v" "v \<in> set ts" ..
  show ?thesis
  proof (cases "task_id v = k")
    case True
    then have "u = v\<lparr>task_status := Done\<rparr>" unfolding v(1) f_def by (simp only: simp_thms if_True)
    then show ?thesis by simp
  next
    case False
    then have "u = v" unfolding v(1) f_def by (simp only: if_False)
    then show ?thesis using False assms(2) by simp
  qed
qed

lemma done_cmd_pending:
  assumes "holds w ts" and "distinct (map task_id ts)" and "t \<in> set ts"
    and "task_id t = k" and "task_status t = Pending"
  shows "done_cmd k w =
           (None, console_print (marked_complete k) (save_tasks (store_of (mark_done k ts)) w))"
proof -
  obtain xs ys where s: "ts = xs @ t # ys" and x: "k \<notin> task_id ` set xs"
    and y: "k \<notin> task_id ` set ys"
    using split_by_id[OF assms(2,3)] unfolding assms(4) by blast
  have h: "holds w (xs @ t # ys)" using assms(1) unfolding s .
  have p: "task_status t \<noteq> Done" using assms(5) by simp
  show ?thesis
    unfolding s mark_done_split[OF x y assms(4)] done_cmd_present[OF h x assms(4)]
    using p by (simp only: if_False)
qed

lemma done_cmd_already_done:
  assumes "holds w ts" and "distinct (map task_id ts)" and "t \<in> set ts"
    and "task_id t = k" and "task_status t = Done"
  shows "done_cmd k w = (None, console_print (already_done k) w)"
proof -
  obtain xs ys where s: "ts = xs @ t # ys" and x: "k \<notin> task_id ` set xs"
    and y: "k \<notin> task_id ` set ys"
    using split_by_id[OF assms(2,3)] unfolding assms(4) by blast
  have h: "holds w (xs @ t # ys)" using assms(1) unfolding s .
  show ?thesis
    unfolding done_cmd_present[OF h x assms(4)] using assms(5) by simp
qed

lemma mark_done_already:
  assumes "distinct (map task_id ts)" and "t \<in> set ts" and "task_id t = k" and "task_status t = Done"
  shows "mark_done k ts = ts"
proof -
  obtain xs ys where s: "ts = xs @ t # ys" and x: "k \<notin> task_id ` set xs"
    and y: "k \<notin> task_id ` set ys"
    using split_by_id[OF assms(1,2)] unfolding assms(3) by blast
  have e: "t\<lparr>task_status := Done\<rparr> = t" using assms(4) by simp
  show ?thesis
    unfolding s mark_done_split[OF x y assms(3)] e ..
qed

lemma holds_console_print: "holds (console_print x w) ts = holds w ts"
  by (simp add: holds_def load_tasks_console_print)

lemma next_id_fresh: "next_id ts \<notin> task_id ` set ts"
proof
  assume a: "next_id ts \<in> task_id ` set ts"
  then have n: "ts \<noteq> []" by auto
  have "next_id ts \<le> Max (task_id ` set ts)"
    by (rule Max_ge[OF _ a]) simp
  then show False using n by (simp add: next_id_def)
qed

lemma add_holds:
  assumes "holds w ts"
  shows "add d now w =
           (None, console_print (added_task d)
              (save_tasks (store_of (ts @ [\<lparr>task_id = next_id ts, task_description = d,
                  task_status = Pending, task_created_at = now\<rparr>])) w))"
proof -
  have l: "load_tasks w = Inr (PList (map task_dict ts))"
    using assms by (simp add: holds_def store_of_def)
  show ?thesis
    unfolding add_def l get_next_id_holds[OF assms]
    by (simp add: Let_def store_of_def task_dict_def)
qed

lemma delete_present:
  assumes "holds w ts" and "k \<in> task_id ` set ts"
  shows "delete k w =
           (None, console_print (deleted_task k)
              (save_tasks (store_of (filter (\<lambda>t. task_id t \<noteq> k) ts)) w))"
proof -
  have l: "load_tasks w = Inr (PList (map task_dict ts))"
    using assms(1) by (simp add: holds_def store_of_def)
  obtain t where "t \<in> set ts" "\<not> task_id t \<noteq> k" using assms(2) by auto
  then have "length (filter (\<lambda>t. task_id t \<noteq> k) ts) < length ts"
    by (rule length_filter_less)
  then show ?thesis
    unfolding delete_def l by (simp add: without_id_tasks store_of_def)
qed

lemma filter_ok: "list_all task_ok ts \<Longrightarrow> list_all task_ok (filter P ts)"
  by (induction ts) simp_all

lemma delete_holds:
  assumes "holds w ts" and "list_all task_ok ts"
  shows "holds (snd (delete k w)) (filter (\<lambda>t. task_id t \<noteq> k) ts)"
proof (cases "k \<in> task_id ` set ts")
  case True
  show ?thesis
    unfolding delete_present[OF assms(1) True] snd_conv
    by (rule holds_save) (rule filter_ok[OF assms(2)])
next
  case False
  show ?thesis
    unfolding delete_absent[OF assms(1) False] filter_other_ids[OF False] not_found_def snd_conv
      holds_console_print
    by (rule assms(1))
qed

lemma done_cmd_holds:
  assumes "holds w ts" and "list_all task_ok ts" and "distinct (map task_id ts)"
  shows "holds (snd (done_cmd k w)) (mark_done k ts)"
proof (cases "k \<in> task_id ` set ts")
  case False
  show ?thesis
    unfolding done_cmd_absent[OF assms(1) False] mark_done_other[OF False] not_found_def snd_conv
      holds_console_print
    by (rule assms(1))
next
  case True
  then obtain t where t: "t \<in> set ts" "task_id t = k" by auto
  show ?thesis
  proof (cases "task_status t")
    case Pending
    show ?thesis
      unfolding done_cmd_pending[OF assms(1,3) t Pending] snd_conv
      by (rule holds_save) (rule mark_done_ok[OF assms(2)])
  next
    case Done
    show ?thesis
      unfolding done_cmd_already_done[OF assms(1,3) t Done] mark_done_already[OF assms(3) t Done]
        snd_conv holds_console_print
      by (rule assms(1))
  qed
qed



lemma get_next_id_after_delete:
  assumes "holds w ts" and "list_all task_ok ts"
  shows "get_next_id (snd (delete k w)) = Inr (next_id (filter (\<lambda>t. task_id t \<noteq> k) ts))"
  by (rule get_next_id_holds[OF delete_holds[OF assms]])


section \<open>The claims\<close>

text \<open>
  C3. \<open>get_next_id\<close> returns 1 when the store is empty, and otherwise 1 plus the
  greatest id of the tasks in the store.
\<close>

theorem get_next_id_one_plus_max:
  "holds w ts \<Longrightarrow> get_next_id w = Inr (if ts = [] then 1 else 1 + Max (task_id ` set ts))"
  using get_next_id_holds[of w ts] by (simp add: next_id_def)

theorem get_next_id_one_plus_max_witness:
  "holds (fresh_world None) [] \<and> get_next_id (fresh_world None) = Inr 1
   \<and> holds example_world example_tasks \<and> get_next_id example_world = Inr 8"
proof -
  have h0: "holds (fresh_world None) []"
    by (rule holds_no_file) (simp add: fresh_world_def)
  have m: "(if example_tasks = [] then 1 else 1 + Max (task_id ` set example_tasks)) = 8"
    by (simp add: example_tasks_def)
  show ?thesis
    using h0 holds_example get_next_id_one_plus_max[OF h0]
      get_next_id_one_plus_max[OF holds_example]
    by (simp add: m)
qed

text \<open>
  C5. For a store and an id \<open>x\<close> that no task of the store has, \<open>done x\<close> and
  \<open>delete x\<close> both raise \<^verbatim>\<open>typer.Exit(code=1)\<close>, so the process exits with status 1,
  and neither writes the file: its text and the count of writes are as before.
\<close>

theorem not_found_no_write:
  assumes "holds w ts" and "x \<notin> task_id ` set ts"
  shows "fst (done_cmd x w) = Some (Exit 1) \<and> exit_status (fst (done_cmd x w)) = Some 1
       \<and> tasks_file (snd (done_cmd x w)) = tasks_file w \<and> writes (snd (done_cmd x w)) = writes w
       \<and> fst (delete x w) = Some (Exit 1) \<and> exit_status (fst (delete x w)) = Some 1
       \<and> tasks_file (snd (delete x w)) = tasks_file w \<and> writes (snd (delete x w)) = writes w"
  using assms
  by (simp add: done_cmd_absent delete_absent not_found_def console_print_def)

theorem not_found_no_write_witness:
  "holds example_world example_tasks \<and> 5 \<notin> task_id ` set example_tasks
   \<and> fst (done_cmd 5 example_world) = Some (Exit 1)
   \<and> exit_status (fst (done_cmd 5 example_world)) = Some 1
   \<and> tasks_file (snd (done_cmd 5 example_world)) = tasks_file example_world
   \<and> writes (snd (done_cmd 5 example_world)) = writes example_world
   \<and> fst (delete 5 example_world) = Some (Exit 1)
   \<and> exit_status (fst (delete 5 example_world)) = Some 1
   \<and> tasks_file (snd (delete 5 example_world)) = tasks_file example_world
   \<and> writes (snd (delete 5 example_world)) = writes example_world"
proof -
  have a: "5 \<notin> task_id ` set example_tasks" by (simp add: example_tasks_def)
  show ?thesis
    using holds_example a not_found_no_write[OF holds_example a] by simp
qed

text \<open>
  C9. Round trip: for every list of tasks whose descriptions and timestamps are text,
  \<open>load_tasks\<close> right after \<open>save_tasks\<close> returns the list that was saved, and no
  other: the same tasks in the same order, each with the same id, description, status
  and timestamp.
\<close>

theorem save_then_load:
  assumes "list_all task_ok ts"
  shows "load_tasks (save_tasks (store_of ts) w) = Inr (store_of ts)
       \<and> (\<forall>us. holds (save_tasks (store_of ts) w) us \<longrightarrow> us = ts)"
proof -
  have l: "load_tasks (save_tasks (store_of ts) w) = Inr (store_of ts)"
    using assms by (simp add: load_tasks_save_tasks val_ok_store_of)
  then have "holds (save_tasks (store_of ts) w) ts" by (simp add: holds_def)
  then show ?thesis using l holds_unique by blast
qed

theorem save_then_load_witness:
  "list_all task_ok example_tasks
   \<and> load_tasks (save_tasks (store_of example_tasks) (fresh_world None)) = Inr (store_of example_tasks)"
  using example_tasks_ok save_then_load[OF example_tasks_ok, of "fresh_world None"] by simp



text \<open>
  C10. \<open>load_tasks\<close> turns only a missing file and a \<open>JSONDecodeError\<close> into the
  empty list: any value the decoder accepts is returned as it is, and the commands
  then work on it. When the file holds the JSON string \<^verbatim>\<open>"not valid json"\<close>,
  \<open>load_tasks\<close> returns that string, and every command ends in a \<open>TypeError\<close>. When
  it holds the empty object \<^verbatim>\<open>{}\<close>, \<open>load_tasks\<close> returns an empty dictionary:
  \<open>list\<close>, \<open>done\<close> and \<open>delete\<close> treat it as an empty store, and \<open>add\<close> ends in an
  \<open>AttributeError\<close>. When it holds the object \<^verbatim>\<open>{"tasks": []}\<close> as \<^verbatim>\<open>json.dump\<close>
  writes it, every command ends in a \<open>TypeError\<close>.
\<close>

theorem load_returns_any_json_value:
  "(\<forall>text v. tasks_file w = Some text \<and> json_loads text = Inr v \<longrightarrow> load_tasks w = Inr v)
   \<and> (tasks_file w = Some (34 # lit ''not valid json'' @ [34]) \<longrightarrow>
         load_tasks w = Inr (PStr (lit ''not valid json''))
         \<and> list_cmd hide_done w = (Some TypeError, w)
         \<and> add description now w = (Some TypeError, w)
         \<and> done_cmd k w = (Some TypeError, w)
         \<and> delete k w = (Some TypeError, w))
   \<and> (tasks_file w = Some (lit ''{}'') \<longrightarrow>
         load_tasks w = Inr (PDict [])
         \<and> list_cmd hide_done w = (None, console_print no_tasks_found w)
         \<and> add description now w = (Some AttributeError, w)
         \<and> done_cmd k w = not_found k w
         \<and> delete k w = not_found k w)
   \<and> (tasks_file w = Some (json_dumps (PDict [(lit ''tasks'', PList [])])) \<longrightarrow>
         load_tasks w = Inr (PDict [(lit ''tasks'', PList [])])
         \<and> list_cmd hide_done w = (Some TypeError, w)
         \<and> add description now w = (Some TypeError, w)
         \<and> done_cmd k w = (Some TypeError, w)
         \<and> delete k w = (Some TypeError, w))"
proof (intro conjI allI impI)
  fix s v
  assume "tasks_file w = Some s \<and> json_loads s = Inr v"
  then show "load_tasks w = Inr v" by (simp add: load_tasks_value)
next
  assume f: "tasks_file w = Some (34 # lit ''not valid json'' @ [34])"
  have l: "load_tasks w = Inr (PStr (110 # tl (lit ''not valid json'')))"
    using load_tasks_value[OF f json_loads_quoted] by (simp add: lit_def)
  show "load_tasks w = Inr (PStr (lit ''not valid json''))"
    by (rule load_tasks_value[OF f json_loads_quoted])
  show "list_cmd hide_done w = (Some TypeError, w)" by (rule commands_on_string[OF l])
  show "add description now w = (Some TypeError, w)" by (rule commands_on_string[OF l])
  show "done_cmd k w = (Some TypeError, w)" by (rule commands_on_string[OF l])
  show "delete k w = (Some TypeError, w)" by (rule commands_on_string[OF l])
next
  assume f: "tasks_file w = Some (lit ''{}'')"
  have l: "load_tasks w = Inr (PDict [])"
    by (rule load_tasks_value[OF f json_loads_empty_object])
  show "load_tasks w = Inr (PDict [])" by (rule l)
  show "list_cmd hide_done w = (None, console_print no_tasks_found w)"
    by (rule commands_on_empty_object[OF l])
  show "add description now w = (Some AttributeError, w)" by (rule commands_on_empty_object[OF l])
  show "done_cmd k w = not_found k w" by (rule commands_on_empty_object[OF l])
  show "delete k w = not_found k w" by (rule commands_on_empty_object[OF l])
next
  assume f: "tasks_file w = Some (json_dumps (PDict [(lit ''tasks'', PList [])]))"
  have l: "load_tasks w = Inr (PDict [(lit ''tasks'', PList [])])"
    by (rule load_tasks_value[OF f json_loads_tasks_object])
  show "load_tasks w = Inr (PDict [(lit ''tasks'', PList [])])" by (rule l)
  show "list_cmd hide_done w = (Some TypeError, w)" by (rule commands_on_object[OF l])
  show "add description now w = (Some TypeError, w)" by (rule commands_on_object[OF l])
  show "done_cmd k w = (Some TypeError, w)" by (rule commands_on_object[OF l])
  show "delete k w = (Some TypeError, w)" by (rule commands_on_object[OF l])
qed

theorem load_returns_any_json_value_witness:
  "load_tasks (fresh_world (Some (34 # lit ''not valid json'' @ [34])))
     = Inr (PStr (lit ''not valid json''))
   \<and> list_cmd False (fresh_world (Some (34 # lit ''not valid json'' @ [34])))
     = (Some TypeError, fresh_world (Some (34 # lit ''not valid json'' @ [34])))
   \<and> add (lit ''buy milk'') (lit ''2024-05-01 08:00'')
         (fresh_world (Some (34 # lit ''not valid json'' @ [34])))
     = (Some TypeError, fresh_world (Some (34 # lit ''not valid json'' @ [34])))
   \<and> load_tasks (fresh_world (Some (lit ''{}''))) = Inr (PDict [])
   \<and> add (lit ''buy milk'') (lit ''2024-05-01 08:00'') (fresh_world (Some (lit ''{}'')))
     = (Some AttributeError, fresh_world (Some (lit ''{}'')))"
proof -
  have f: "tasks_file (fresh_world (Some x)) = Some x" for x
    by (simp add: fresh_world_def)
  show ?thesis
    using load_returns_any_json_value
        [of "fresh_world (Some (34 # lit ''not valid json'' @ [34]))" False
            "lit ''buy milk''" "lit ''2024-05-01 08:00''" 1]
      load_returns_any_json_value
        [of "fresh_world (Some (lit ''{}''))" False "lit ''buy milk''" "lit ''2024-05-01 08:00''" 1]
    by (simp only: f simp_thms)
qed



text \<open>
  C7. For every store with distinct ids that holds a pending task with id \<open>k\<close>,
  \<open>done k\<close> saves the store in which that task is done: every other task is as it
  was, and the task keeps its id, description and timestamp. The file is written once.
\<close>

theorem done_marks_pending_task:
  assumes "holds w ts" and "distinct (map task_id ts)" and "t \<in> set ts"
    and "task_id t = k" and "task_status t = Pending"
  shows "done_cmd k w =
           (None, console_print (marked_complete k) (save_tasks (store_of (mark_done k ts)) w))
       \<and> tasks_file (snd (done_cmd k w)) = Some (json_dumps (store_of (mark_done k ts)))
       \<and> writes (snd (done_cmd k w)) = Suc (writes w)
       \<and> (list_all task_ok ts \<longrightarrow> holds (snd (done_cmd k w)) (mark_done k ts))
       \<and> mark_done k ts =
           map (\<lambda>u. if task_id u = k
                    then \<lparr>task_id = task_id u, task_description = task_description u,
                          task_status = Done, task_created_at = task_created_at u\<rparr>
                    else u) ts"
proof -
  have d: "done_cmd k w =
           (None, console_print (marked_complete k) (save_tasks (store_of (mark_done k ts)) w))"
    by (rule done_cmd_pending[OF assms])
  have m: "mark_done k ts =
           map (\<lambda>u. if task_id u = k
                    then \<lparr>task_id = task_id u, task_description = task_description u,
                          task_status = Done, task_created_at = task_created_at u\<rparr>
                    else u) ts"
    unfolding mark_done_def by (rule map_cong) simp_all
  have h: "list_all task_ok ts \<Longrightarrow> holds (snd (done_cmd k w)) (mark_done k ts)"
    unfolding d snd_conv by (rule holds_save) (rule mark_done_ok)
  show ?thesis
    using d m h by (simp add: console_print_def save_tasks_def)
qed

theorem done_marks_pending_task_witness:
  "holds example_world example_tasks \<and> distinct (map task_id example_tasks)
   \<and> \<lparr>task_id = 7, task_description = lit ''buy milk'', task_status = Pending,
       task_created_at = lit ''2024-01-02 11:30''\<rparr> \<in> set example_tasks
   \<and> fst (done_cmd 7 example_world) = None
   \<and> writes (snd (done_cmd 7 example_world)) = 1
   \<and> holds (snd (done_cmd 7 example_world))
        [\<lparr>task_id = 2, task_description = lit ''write report'', task_status = Done,
          task_created_at = lit ''2024-01-01 10:00''\<rparr>,
         \<lparr>task_id = 7, task_description = lit ''buy milk'', task_status = Done,
          task_created_at = lit ''2024-01-02 11:30''\<rparr>,
         \<lparr>task_id = 4, task_description = lit ''call home'', task_status = Pending,
          task_created_at = lit ''2024-01-03 09:15''\<rparr>]"
proof -
  let ?t = "\<lparr>task_id = 7, task_description = lit ''buy milk'', task_status = Pending,
       task_created_at = lit ''2024-01-02 11:30''\<rparr>"
  have d: "distinct (map task_id example_tasks)" by (simp add: example_tasks_def)
  have m: "?t \<in> set example_tasks" by (simp add: example_tasks_def)
  have i: "task_id ?t = 7" by simp
  have p: "task_status ?t = Pending" by simp
  have e: "mark_done 7 example_tasks =
        [\<lparr>task_id = 2, task_description = lit ''write report'', task_status = Done,
          task_created_at = lit ''2024-01-01 10:00''\<rparr>,
         \<lparr>task_id = 7, task_description = lit ''buy milk'', task_status = Done,
          task_created_at = lit ''2024-01-02 11:30''\<rparr>,
         \<lparr>task_id = 4, task_description = lit ''call home'', task_status = Pending,
          task_created_at = lit ''2024-01-03 09:15''\<rparr>]"
    by (simp add: mark_done_def example_tasks_def)
  have w: "writes example_world = 0" by (simp add: example_world_def fresh_world_def)
  note T = done_marks_pending_task[OF holds_example d m i p]
  from T have a: "fst (done_cmd 7 example_world) = None" by simp
  from T have b: "writes (snd (done_cmd 7 example_world)) = Suc (writes example_world)" by blast
  from T example_tasks_ok have c: "holds (snd (done_cmd 7 example_world)) (mark_done 7 example_tasks)"
    by blast
  show ?thesis
    using holds_example d m a b c unfolding e w by simp
qed

text \<open>
  C8. For every store with distinct ids that holds a task with id \<open>k\<close>: when the
  task is done already, \<open>done k\<close> prints the warning, returns (exit status 0), does
  not write the file, and the store is as it was; and whatever the status of the task
  was, a second \<open>done k\<close> right after the first prints the warning and writes
  nothing, and the task is done after both calls.
\<close>

theorem done_twice_writes_once:
  assumes "holds w ts" and "distinct (map task_id ts)" and "t \<in> set ts" and "task_id t = k"
  shows "(task_status t = Done \<longrightarrow>
            done_cmd k w = (None, console_print (already_done k) w)
            \<and> exit_status (fst (done_cmd k w)) = Some 0
            \<and> tasks_file (snd (done_cmd k w)) = tasks_file w
            \<and> writes (snd (done_cmd k w)) = writes w
            \<and> holds (snd (done_cmd k w)) ts)
       \<and> (list_all task_ok ts \<longrightarrow>
            done_cmd k (snd (done_cmd k w))
              = (None, console_print (already_done k) (snd (done_cmd k w)))
            \<and> writes (snd (done_cmd k (snd (done_cmd k w)))) = writes (snd (done_cmd k w))
            \<and> tasks_file (snd (done_cmd k (snd (done_cmd k w)))) = tasks_file (snd (done_cmd k w))
            \<and> holds (snd (done_cmd k (snd (done_cmd k w)))) (mark_done k ts)
            \<and> (\<forall>u \<in> set (mark_done k ts). task_id u = k \<longrightarrow> task_status u = Done))"
proof (intro conjI impI)
  assume s: "task_status t = Done"
  show d: "done_cmd k w = (None, console_print (already_done k) w)"
    by (rule done_cmd_already_done[OF assms s])
  show "exit_status (fst (done_cmd k w)) = Some 0" unfolding d by simp
  show "tasks_file (snd (done_cmd k w)) = tasks_file w" unfolding d by (simp add: console_print_def)
  show "writes (snd (done_cmd k w)) = writes w" unfolding d by (simp add: console_print_def)
  show "holds (snd (done_cmd k w)) ts"
    unfolding d snd_conv holds_console_print by (rule assms(1))
next
  assume ok: "list_all task_ok ts"
  define w1 where "w1 = snd (done_cmd k w)"
  have h1: "holds w1 (mark_done k ts)"
  proof (cases "task_status t")
    case Pending
    have "done_cmd k w =
           (None, console_print (marked_complete k) (save_tasks (store_of (mark_done k ts)) w))"
      by (rule done_cmd_pending[OF assms Pending])
    then show ?thesis
      unfolding w1_def using holds_save[OF mark_done_ok[OF ok]] by simp
  next
    case Done
    have "done_cmd k w = (None, console_print (already_done k) w)"
      by (rule done_cmd_already_done[OF assms Done])
    then show ?thesis
      unfolding w1_def using assms(1) mark_done_already[OF assms(2,3,4) Done]
      by (simp add: holds_console_print)
  qed
  have d1: "distinct (map task_id (mark_done k ts))"
    using assms(2) by (simp only: mark_done_ids)
  have "k \<in> set (map task_id (mark_done k ts))"
    using assms(3,4) by (auto simp only: mark_done_ids set_map)
  then obtain u where u: "u \<in> set (mark_done k ts)" "task_id u = k"
    by auto
  have su: "task_status u = Done" by (rule mark_done_status[OF u])
  have d: "done_cmd k w1 = (None, console_print (already_done k) w1)"
    by (rule done_cmd_already_done[OF h1 d1 u su])
  show "done_cmd k (snd (done_cmd k w))
              = (None, console_print (already_done k) (snd (done_cmd k w)))"
    using d unfolding w1_def .
  show "writes (snd (done_cmd k (snd (done_cmd k w)))) = writes (snd (done_cmd k w))"
    using d unfolding w1_def by (simp add: console_print_def)
  show "tasks_file (snd (done_cmd k (snd (done_cmd k w)))) = tasks_file (snd (done_cmd k w))"
    using d unfolding w1_def by (simp add: console_print_def)
  show "holds (snd (done_cmd k (snd (done_cmd k w)))) (mark_done k ts)"
    using d h1 unfolding w1_def by (simp add: holds_console_print)
  show "\<forall>u \<in> set (mark_done k ts). task_id u = k \<longrightarrow> task_status u = Done"
    using mark_done_status by blast
qed

theorem done_twice_writes_once_witness:
  "holds example_world example_tasks \<and> distinct (map task_id example_tasks)
   \<and> \<lparr>task_id = 2, task_description = lit ''write report'', task_status = Done,
       task_created_at = lit ''2024-01-01 10:00''\<rparr> \<in> set example_tasks
   \<and> done_cmd 2 example_world = (None, console_print (already_done 2) example_world)
   \<and> exit_status (fst (done_cmd 2 example_world)) = Some 0
   \<and> writes (snd (done_cmd 2 example_world)) = 0
   \<and> list_all task_ok example_tasks
   \<and> \<lparr>task_id = 7, task_description = lit ''buy milk'', task_status = Pending,
       task_created_at = lit ''2024-01-02 11:30''\<rparr> \<in> set example_tasks
   \<and> writes (snd (done_cmd 7 (snd (done_cmd 7 example_world))))
       = writes (snd (done_cmd 7 example_world))
   \<and> holds (snd (done_cmd 7 (snd (done_cmd 7 example_world)))) (mark_done 7 example_tasks)"
proof -
  let ?t2 = "\<lparr>task_id = 2, task_description = lit ''write report'', task_status = Done,
       task_created_at = lit ''2024-01-01 10:00''\<rparr>"
  let ?t7 = "\<lparr>task_id = 7, task_description = lit ''buy milk'', task_status = Pending,
       task_created_at = lit ''2024-01-02 11:30''\<rparr>"
  have d: "distinct (map task_id example_tasks)" by (simp add: example_tasks_def)
  have m2: "?t2 \<in> set example_tasks" and m7: "?t7 \<in> set example_tasks"
    by (simp_all add: example_tasks_def)
  have i2: "task_id ?t2 = 2" and s2: "task_status ?t2 = Done" and i7: "task_id ?t7 = 7"
    by simp_all
  have w: "writes example_world = 0" by (simp add: example_world_def fresh_world_def)
  note A = done_twice_writes_once[OF holds_example d m2 i2]
  note B = done_twice_writes_once[OF holds_example d m7 i7]
  from A s2 have a1: "done_cmd 2 example_world = (None, console_print (already_done 2) example_world)"
    by blast
  from A s2 have a2: "exit_status (fst (done_cmd 2 example_world)) = Some 0" by blast
  from A s2 have a3: "writes (snd (done_cmd 2 example_world)) = writes example_world" by blast
  from B example_tasks_ok have b1: "writes (snd (done_cmd 7 (snd (done_cmd 7 example_world))))
       = writes (snd (done_cmd 7 example_world))" by blast
  from B example_tasks_ok have b2:
    "holds (snd (done_cmd 7 (snd (done_cmd 7 example_world)))) (mark_done 7 example_tasks)"
    by blast
  show ?thesis
    using holds_example d m2 m7 a1 a2 a3 b1 b2 example_tasks_ok unfolding w by blast
qed

text \<open>
  C4. Distinct ids are an invariant: for every store of tasks with distinct ids, the
  store after \<open>add\<close>, after \<open>done k\<close> and after \<open>delete k\<close> is again a store of
  tasks with distinct ids (the tasks before with a new one at the end, with task \<open>k\<close>
  marked done, and without task \<open>k\<close>).
\<close>

theorem ids_stay_distinct:
  assumes "holds w ts" and "list_all task_ok ts" and "distinct (map task_id ts)"
    and "str_ok description" and "str_ok now"
  shows "holds (snd (add description now w))
           (ts @ [\<lparr>task_id = next_id ts, task_description = description,
                   task_status = Pending, task_created_at = now\<rparr>])
       \<and> distinct (map task_id
           (ts @ [\<lparr>task_id = next_id ts, task_description = description,
                   task_status = Pending, task_created_at = now\<rparr>]))
       \<and> holds (snd (done_cmd k w)) (mark_done k ts)
       \<and> distinct (map task_id (mark_done k ts))
       \<and> holds (snd (delete k w)) (filter (\<lambda>t. task_id t \<noteq> k) ts)
       \<and> distinct (map task_id (filter (\<lambda>t. task_id t \<noteq> k) ts))"
proof (intro conjI)
  let ?new = "\<lparr>task_id = next_id ts, task_description = description,
                   task_status = Pending, task_created_at = now\<rparr>"
  have ok: "list_all task_ok (ts @ [?new])"
    using assms(2,4,5) by (simp add: task_ok_def)
  show "holds (snd (add description now w)) (ts @ [?new])"
    unfolding add_holds[OF assms(1)] snd_conv by (rule holds_save[OF ok])
  show "distinct (map task_id (ts @ [?new]))"
    using assms(3) next_id_fresh[of ts] by simp
  show "holds (snd (done_cmd k w)) (mark_done k ts)"
    by (rule done_cmd_holds[OF assms(1,2,3)])
  show "distinct (map task_id (mark_done k ts))"
    using assms(3) by (simp only: mark_done_ids)
  show "holds (snd (delete k w)) (filter (\<lambda>t. task_id t \<noteq> k) ts)"
    by (rule delete_holds[OF assms(1,2)])
  show "distinct (map task_id (filter (\<lambda>t. task_id t \<noteq> k) ts))"
    using assms(3) by (rule distinct_map_filter)
qed

theorem ids_stay_distinct_witness:
  "holds example_world example_tasks \<and> list_all task_ok example_tasks
   \<and> distinct (map task_id example_tasks)
   \<and> str_ok (lit ''buy eggs'') \<and> str_ok (lit ''2024-02-01 12:00'')
   \<and> holds (snd (add (lit ''buy eggs'') (lit ''2024-02-01 12:00'') example_world))
        (example_tasks @ [\<lparr>task_id = 8, task_description = lit ''buy eggs'',
           task_status = Pending, task_created_at = lit ''2024-02-01 12:00''\<rparr>])
   \<and> distinct (map task_id
        (example_tasks @ [\<lparr>task_id = 8, task_description = lit ''buy eggs'',
           task_status = Pending, task_created_at = lit ''2024-02-01 12:00''\<rparr>]))
   \<and> holds (snd (done_cmd 7 example_world)) (mark_done 7 example_tasks)
   \<and> distinct (map task_id (mark_done 7 example_tasks))
   \<and> holds (snd (delete 7 example_world)) (filter (\<lambda>t. task_id t \<noteq> 7) example_tasks)
   \<and> distinct (map task_id (filter (\<lambda>t. task_id t \<noteq> 7) example_tasks))"
proof -
  have d: "distinct (map task_id example_tasks)" by (simp add: example_tasks_def)
  have s: "str_ok (lit ''buy eggs'')" "str_ok (lit ''2024-02-01 12:00'')"
    by (simp_all add: str_ok_def char_ok_def lit_def)
  have n: "next_id example_tasks = 8" by (simp add: next_id_def example_tasks_def)
  show ?thesis
    using holds_example example_tasks_ok d s
      ids_stay_distinct[OF holds_example example_tasks_ok d s, of 7]
    unfolding n by blast
qed




end
